theory Spec2Isabelle
  imports Complex_Main "HOL-Library.Sublist"
begin

section \<open>Strings\<close>

text \<open>
  A JavaScript string is modelled by the bytes of its UTF-8 encoding (a \<open>string\<close>).
  \<open>str_includes\<close> is \<open>String.prototype.includes\<close>: the needle occurs as a contiguous
  run.
\<close>

fun str_includes :: "string \<Rightarrow> string \<Rightarrow> bool" where
  "str_includes [] needle = (needle = [])"
| "str_includes (c # cs) needle = (prefix needle (c # cs) \<or> str_includes cs needle)"

text \<open>\<open>Array.prototype.join\<close> on an array of strings.\<close>

fun join :: "string \<Rightarrow> string list \<Rightarrow> string" where
  "join sep [] = []"
| "join sep [x] = x"
| "join sep (x # y # ys) = x @ sep @ join sep (y # ys)"

section \<open>The API as seen by the callers of \<open>ghGET\<close>\<close>

text \<open>
  A URL is represented by its endpoint and the parts the code interpolates into it:
  \<open>/repos/o/r/languages\<close>, \<open>/repos/o/r/topics\<close>, \<open>/repos/o/r/contents/p\<close>,
  \<open>/repos/o/r/readme\<close> and \<open>/search/repositories?q=..&per_page=..&page=..\<close>.
\<close>

datatype endpoint =
    Languages string string
  | Topics string string
  | Contents string string string
  | Readme string string
  | SearchRepositories string "int option" int

text \<open>One element of a directory listing (\<open>type\<close>, \<open>name\<close>, \<open>path\<close>).\<close>

record entry =
  etype :: string
  ename :: string
  epath :: string

text \<open>One search hit (\<open>full_name\<close>, \<open>owner.login\<close>, \<open>name\<close>, \<open>description\<close>,
  \<open>stargazers_count\<close>).\<close>

record item =
  full_name :: string
  owner_login :: string
  item_name :: string
  description :: "string option"
  stargazers_count :: int

text \<open>
  The JSON bodies the API documents for these endpoints: the language breakdown (bytes
  per language), the topic names, a file (\<open>encoding\<close>, \<open>content\<close>), a directory listing
  (an array), a search page (\<open>total_count\<close>, \<open>items\<close>). A field the code reads from a body
  of another shape is \<open>undefined\<close> there.
\<close>

datatype payload =
    LanguagesObj "(string \<times> int) list"
  | TopicsObj "string list"
  | FileObj string string
  | Listing "entry list"
  | SearchObj int "item list"

text \<open>
  What \<open>ghGET\<close> returns: \<open>{ status: 404 }\<close> (no data) or \<open>{ status, data }\<close>, where
  \<open>data\<close> is \<open>null\<close> (\<open>None\<close>) when the body is not JSON.
\<close>

record gh_result =
  status :: int
  data :: "payload option"

text \<open>
  A call either returns, throws, or does not return (\<open>ghGET\<close> retries for ever, a
  traversal exceeds its fuel). \<open>catch\<close> handles the exception only.
\<close>

datatype gh_error = FetchFailed | HttpError int

datatype 'a outcome = Ok 'a | Throw gh_error | NoReturn

text \<open>
  Values of package.json after \<open>JSON.parse\<close>. Numbers are only tested for being zero.
  An object holds each key once.
\<close>

datatype json =
    JNull
  | JBool bool
  | JNum int
  | JStr string
  | JArr "json list"
  | JObj "(string \<times> json) list"

text \<open>
  The environment of a run: \<open>api\<close> gives the outcome of \<open>ghGET\<close> for each URL; the
  other components are the functions of the runtime the code calls: \<open>base64\<close> is
  \<open>Buffer.from(s, 'base64').toString('utf-8')\<close>, \<open>JSON_parse\<close> is \<open>JSON.parse\<close> (\<open>None\<close>
  when it throws) and \<open>toLowerCase\<close> is \<open>String.prototype.toLowerCase\<close>, the lower-casing
  of the Unicode tables the runtime carries.
\<close>

record env =
  api :: "endpoint \<Rightarrow> gh_result outcome"
  base64 :: "string \<Rightarrow> string"
  JSON_parse :: "string \<Rightarrow> json option"
  toLowerCase :: "string \<Rightarrow> string"

text \<open>
  An asynchronous function is its outcome together with the requests it made, in
  order.
\<close>

type_synonym 'a io = "'a outcome \<times> endpoint list"

definition ret :: "'a \<Rightarrow> 'a io" where
  "ret x = (Ok x, [])"

definition bind_io :: "'a io \<Rightarrow> ('a \<Rightarrow> 'b io) \<Rightarrow> 'b io" where
  "bind_io m f =
     (case m of
        (Ok x, l) \<Rightarrow> (case f x of (r, l') \<Rightarrow> (r, l @ l'))
      | (Throw e, l) \<Rightarrow> (Throw e, l)
      | (NoReturn, l) \<Rightarrow> (NoReturn, l))"

text \<open>\<open>p.catch(() => v)\<close> and \<open>try { .. } catch { v }\<close>.\<close>

definition catch_io :: "'a io \<Rightarrow> 'a \<Rightarrow> 'a io" where
  "catch_io m v = (case m of (Throw e, l) \<Rightarrow> (Ok v, l) | (r, l) \<Rightarrow> (r, l))"

definition request :: "env \<Rightarrow> endpoint \<Rightarrow> gh_result io" where
  "request e u = (api e u, [u])"

text \<open>
  \<open>encodeURIComponent\<close> on the UTF-8 bytes: the unreserved characters are kept, every
  other byte becomes \<open>%XX\<close>.
\<close>

definition hex_digit :: "nat \<Rightarrow> char" where
  "hex_digit n = ''0123456789ABCDEF'' ! (n mod 16)"

definition encode_char :: "char \<Rightarrow> string" where
  "encode_char c =
     (if c \<in> set ''ABCDEFGHIJKLMNOPQRSTUVWXYZabcdefghijklmnopqrstuvwxyz0123456789-_.!~*'()''
      then [c]
      else [CHR ''%'', hex_digit (of_char c div 16), hex_digit (of_char c)])"

definition encodeURIComponent :: "string \<Rightarrow> string" where
  "encodeURIComponent s = concat (map encode_char s)"

definition getRepoLanguages :: "env \<Rightarrow> string \<Rightarrow> string \<Rightarrow> (string \<times> int) list io" where
  "getRepoLanguages e owner repo =
     bind_io (request e (Languages owner repo)) (\<lambda>r.
       ret (if status r \<noteq> 200 then []
            else (case data r of Some (LanguagesObj kvs) \<Rightarrow> kvs | _ \<Rightarrow> [])))"

definition getRepoTopics :: "env \<Rightarrow> string \<Rightarrow> string \<Rightarrow> string list io" where
  "getRepoTopics e owner repo =
     bind_io (request e (Topics owner repo)) (\<lambda>r.
       ret (if status r \<noteq> 200 then []
            else (case data r of Some (TopicsObj names) \<Rightarrow> names | _ \<Rightarrow> [])))"

text \<open>The decoded text of a file body, \<open>null\<close> (\<open>None\<close>) for anything else.\<close>

definition decode_file :: "env \<Rightarrow> gh_result \<Rightarrow> string option" where
  "decode_file e r =
     (if status r \<noteq> 200 then None
      else (case data r of
              Some (FileObj encoding content) \<Rightarrow>
                if encoding = ''base64'' \<and> content \<noteq> [] then Some (base64 e content) else None
            | _ \<Rightarrow> None))"

definition getRepoContent :: "env \<Rightarrow> string \<Rightarrow> string \<Rightarrow> string \<Rightarrow> string option io" where
  "getRepoContent e owner repo pathName =
     bind_io (request e (Contents owner repo (encodeURIComponent pathName))) (\<lambda>r.
       ret (decode_file e r))"

definition getRepoReadme :: "env \<Rightarrow> string \<Rightarrow> string \<Rightarrow> string io" where
  "getRepoReadme e owner repo =
     bind_io (request e (Readme owner repo)) (\<lambda>r.
       ret (case decode_file e r of None \<Rightarrow> [] | Some t \<Rightarrow> t))"

section \<open>Configuration\<close>

text \<open>
  The values read from the process environment. A number that \<open>parseInt\<close> could not
  read is \<open>NaN\<close> (\<open>None\<close>). The two extra keyword lists are the lists after splitting,
  trimming, lower-casing and dropping empty entries.
\<close>

record config =
  BATCH_SIZE :: "int option"
  MAX_QUALIFIED :: "int option"
  MAX_ANALYZED :: "int option"
  REQUIRE_FRONTEND_TESTS :: bool
  EXCLUDE_COURSE_BOILERPLATE :: bool
  README_COURSE_CHECK :: bool
  EXTRA_COURSE_KEYWORDS :: "string list"
  EXTRA_BOILERPLATE_KEYWORDS :: "string list"

text \<open>The defaults the REST-paginated script uses when the environment sets nothing.\<close>

definition default_config :: config where
  "default_config =
     \<lparr>BATCH_SIZE = Some 100, MAX_QUALIFIED = Some 1000, MAX_ANALYZED = Some 0,
      REQUIRE_FRONTEND_TESTS = True, EXCLUDE_COURSE_BOILERPLATE = True,
      README_COURSE_CHECK = False, EXTRA_COURSE_KEYWORDS = [],
      EXTRA_BOILERPLATE_KEYWORDS = []\<rparr>"

section \<open>Noise filter: course, boilerplate and template keywords\<close>

definition COURSE_KEYWORDS_DEFAULT :: "string list" where
  "COURSE_KEYWORDS_DEFAULT =
     [''curso'', ''course'', ''udemy'', ''alura'', ''rocketseat'', ''bootcamp'',
      ''treinamento'', ''tutorial'', ''aula'', ''aulas'', ''exercicio'',
      ''exerc'' @ [CHR 0xC3, CHR 0xAD] @ ''cio'', ''exercicios'',
      ''exerc'' @ [CHR 0xC3, CHR 0xAD] @ ''cios'', ''learn'', ''learning'',
      ''education'', ''formacao'',
      ''forma'' @ [CHR 0xC3, CHR 0xA7, CHR 0xC3, CHR 0xA3] @ ''o'', ''nanodegree'',
      ''codecademy'', ''freecodecamp'']"

definition BOILERPLATE_KEYWORDS_DEFAULT :: "string list" where
  "BOILERPLATE_KEYWORDS_DEFAULT =
     [''boilerplate'', ''starter'', ''starter-kit'', ''seed'', ''scaffold'', ''skeleton'',
      ''quickstart'', ''template'', ''templates'']"

text \<open>
  \<open>textIncludesAny(haystack, keywords)\<close>; the haystack may be \<open>null\<close> or \<open>undefined\<close>
  (\<open>None\<close>), which \<open>haystack || ''\<close> turns into the empty string, as it does the empty
  string itself.
\<close>

definition textIncludesAny :: "env \<Rightarrow> string option \<Rightarrow> string list \<Rightarrow> bool" where
  "textIncludesAny e haystack keywords =
     (let lc = toLowerCase e (case haystack of None \<Rightarrow> [] | Some h \<Rightarrow> h)
      in list_ex (\<lambda>k. str_includes lc k) keywords)"

text \<open>
  \<open>detectCourseOrBoilerplate(owner, repo, name, description, topics)\<close>. The first 4000
  characters of the README are its first 4000 bytes here (the same on ASCII text).
\<close>

definition detectCourseOrBoilerplate ::
  "config \<Rightarrow> env \<Rightarrow> string \<Rightarrow> string \<Rightarrow> string option \<Rightarrow> string option \<Rightarrow> string list \<Rightarrow> bool io"
where
  "detectCourseOrBoilerplate cfg e owner repo name descr topics =
     (let courseKeywords = COURSE_KEYWORDS_DEFAULT @ EXTRA_COURSE_KEYWORDS cfg;
          boilerKeywords = BOILERPLATE_KEYWORDS_DEFAULT @ EXTRA_BOILERPLATE_KEYWORDS cfg;
          nameStr = toLowerCase e (case name of None \<Rightarrow> [] | Some n \<Rightarrow> n);
          descStr = toLowerCase e (case descr of None \<Rightarrow> [] | Some d \<Rightarrow> d);
          topicsStr = join '' '' (map (toLowerCase e) topics);
          isCourse =
            (textIncludesAny e (Some nameStr) courseKeywords \<or>
             textIncludesAny e (Some descStr) courseKeywords \<or>
             textIncludesAny e (Some topicsStr) courseKeywords);
          isBoilerOrTemplate =
            (textIncludesAny e (Some nameStr) boilerKeywords \<or>
             textIncludesAny e (Some descStr) boilerKeywords \<or>
             textIncludesAny e (Some topicsStr) boilerKeywords)
      in if \<not> isCourse \<and> \<not> isBoilerOrTemplate \<and> README_COURSE_CHECK cfg
         then bind_io (catch_io (getRepoReadme e owner repo) []) (\<lambda>readme.
                let readme2k = toLowerCase e (take 4000 readme)
                in ret (textIncludesAny e (Some readme2k) courseKeywords \<or>
                        textIncludesAny e (Some readme2k) boilerKeywords))
         else ret (isCourse \<or> isBoilerOrTemplate))"

section \<open>Reading package.json\<close>

text \<open>
  Truthiness of a JSON value, a property read (\<open>None\<close> is \<open>undefined\<close>; the names the
  code reads are own properties of objects only), \<open>x || {}\<close> and \<open>Object.values\<close>.
\<close>

fun truthy :: "json \<Rightarrow> bool" where
  "truthy JNull = False"
| "truthy (JBool b) = b"
| "truthy (JNum n) = (n \<noteq> 0)"
| "truthy (JStr s) = (s \<noteq> [])"
| "truthy (JArr xs) = True"
| "truthy (JObj kvs) = True"

fun get_prop :: "json \<Rightarrow> string \<Rightarrow> json option" where
  "get_prop (JObj kvs) k = map_of kvs k"
| "get_prop j k = None"

definition truthy_opt :: "json option \<Rightarrow> bool" where
  "truthy_opt v = (case v of None \<Rightarrow> False | Some j \<Rightarrow> truthy j)"

definition or_obj :: "json option \<Rightarrow> json" where
  "or_obj v = (case v of None \<Rightarrow> JObj [] | Some j \<Rightarrow> if truthy j then j else JObj [])"

fun object_values :: "json \<Rightarrow> json list" where
  "object_values (JObj kvs) = map snd kvs"
| "object_values (JArr xs) = xs"
| "object_values (JStr s) = map (\<lambda>c. JStr [c]) s"
| "object_values j = []"

fun string_values :: "json list \<Rightarrow> string list" where
  "string_values [] = []"
| "string_values (JStr s # js) = s # string_values js"
| "string_values (j # js) = string_values js"

definition hasDep :: "json \<Rightarrow> string \<Rightarrow> bool" where
  "hasDep pkgJson name =
     (let deps = or_obj (get_prop pkgJson ''dependencies'');
          dev = or_obj (get_prop pkgJson ''devDependencies'')
      in truthy_opt (get_prop deps name) \<or> truthy_opt (get_prop dev name))"

definition pkgHasAnyDep :: "json \<Rightarrow> string list \<Rightarrow> bool" where
  "pkgHasAnyDep pkgJson names = list_ex (hasDep pkgJson) names"

definition scriptsContain :: "env \<Rightarrow> json \<Rightarrow> string list \<Rightarrow> bool" where
  "scriptsContain e pkgJson substrings =
     (let scripts = or_obj (get_prop pkgJson ''scripts'');
          vals = map (toLowerCase e) (string_values (object_values scripts))
      in list_ex (\<lambda>sub. list_ex (\<lambda>s. str_includes s sub) vals) substrings)"

record frontend =
  fe_hasFrontendTests :: bool
  fe_libs :: "string list"
  fe_hasJest :: bool
  fe_hasReactDeps :: bool
  fe_hasFrontendTestLibs :: bool

definition detectFrontendFromPkg :: "env \<Rightarrow> json \<Rightarrow> frontend" where
  "detectFrontendFromPkg e pkgJson =
     (let hasJest =
            (pkgHasAnyDep pkgJson [''jest'', ''@jest/globals'', ''ts-jest'', ''babel-jest''] \<or>
             scriptsContain e pkgJson [''jest'']);
          hasReactDeps = pkgHasAnyDep pkgJson [''react'', ''react-dom''];
          hasRTL = pkgHasAnyDep pkgJson
            [''@testing-library/react'', ''@testing-library/jest-dom'',
             ''@testing-library/user-event''];
          hasEnzyme = pkgHasAnyDep pkgJson [''enzyme''];
          libs = (if hasRTL then [''testing-library''] else []) @
                 (if hasEnzyme then [''enzyme''] else []) @
                 (if hasJest then [''jest''] else []);
          hasFrontendTestLibs = (hasRTL \<or> hasEnzyme)
      in \<lparr>fe_hasFrontendTests = (hasReactDeps \<and> hasJest \<and> hasFrontendTestLibs),
          fe_libs = libs, fe_hasJest = hasJest, fe_hasReactDeps = hasReactDeps,
          fe_hasFrontendTestLibs = hasFrontendTestLibs\<rparr>)"

section \<open>Scanning the source tree for React tests\<close>

text \<open>The requests of \<open>m\<close>, preceded by those already made.\<close>

definition after :: "endpoint list \<Rightarrow> 'a io \<Rightarrow> 'a io" where
  "after l m = (fst m, l @ snd m)"

text \<open>
  \<open>name.match(/\.(test|spec)\.tsx?$/)\<close>: the pattern is tried at each position of the
  name, and matches there when what is left of the name is one of the four endings.
\<close>

fun isTestFile :: "string \<Rightarrow> bool" where
  "isTestFile [] = False"
| "isTestFile (c # cs) =
     (c # cs \<in> set [''.test.ts'', ''.test.tsx'', ''.spec.ts'', ''.spec.tsx''] \<or>
      isTestFile cs)"

definition hasRenderImport :: "string \<Rightarrow> bool" where
  "hasRenderImport content =
     (str_includes content ''import { render }'' \<and>
      str_includes content ''@testing-library/react'')"

definition hasEnzymeImport :: "string \<Rightarrow> bool" where
  "hasEnzymeImport content =
     (str_includes content ''enzyme'' \<or> str_includes content ''shallow'' \<or>
      str_includes content ''mount'')"

text \<open>\<open>basePath.split('/').length\<close>.\<close>

definition depth :: "string \<Rightarrow> nat" where
  "depth basePath = Suc (length (filter (\<lambda>c. c = CHR ''/'') basePath))"

text \<open>\<open>status === 200 && Array.isArray(data)\<close>: the listing, if the answer is one.\<close>

definition listing :: "gh_result \<Rightarrow> entry list option" where
  "listing r =
     (if status r = 200 then (case data r of Some (Listing xs) \<Rightarrow> Some xs | _ \<Rightarrow> None)
      else None)"

text \<open>
  One round of a \<open>for\<close> loop that returns \<open>true\<close> as soon as a round finds something:
  \<open>m\<close> is the round, \<open>k\<close> the rest of the loop. An exception in the round is caught and
  the loop goes on (\<open>catch { continue }\<close>).
\<close>

definition or_else :: "bool io \<Rightarrow> bool io \<Rightarrow> bool io" where
  "or_else m k =
     (case m of
        (Ok found, l) \<Rightarrow> if found then (Ok True, l) else after l k
      | (Throw err, l) \<Rightarrow> after l k
      | (NoReturn, l) \<Rightarrow> (NoReturn, l))"

text \<open>The file branch: the text of a file named like a test is fetched and inspected.\<close>

definition checkFile :: "env \<Rightarrow> string \<Rightarrow> string \<Rightarrow> entry \<Rightarrow> bool io" where
  "checkFile e owner repo item =
     (if isTestFile (ename item) then
        bind_io (getRepoContent e owner repo (epath item)) (\<lambda>content.
          ret (case content of
                 None \<Rightarrow> False
               | Some c \<Rightarrow> c \<noteq> [] \<and> (hasRenderImport c \<or> hasEnzymeImport c)))
      else ret False)"

text \<open>
  \<open>searchDirectoryForReactTests\<close>. The first argument bounds how many listings may be
  nested inside one another; the traversal answers \<open>NoReturn\<close> when it would go deeper.
\<close>

fun searchDirectoryForReactTests ::
  "nat \<Rightarrow> env \<Rightarrow> string \<Rightarrow> string \<Rightarrow> entry list \<Rightarrow> string \<Rightarrow> bool io"
where
  "searchDirectoryForReactTests n e owner repo [] basePath = (Ok False, [])"
| "searchDirectoryForReactTests n e owner repo (item # rest) basePath =
     or_else
       (if etype item = ''file'' then checkFile e owner repo item
        else if etype item = ''dir'' \<and> ename item \<noteq> ''node_modules'' \<and> ename item \<noteq> ''.git'' \<and>
                depth basePath < 3
        then bind_io (request e (Contents owner repo (epath item))) (\<lambda>r.
               case listing r of
                 None \<Rightarrow> ret False
               | Some sub \<Rightarrow>
                   (case n of
                      0 \<Rightarrow> (NoReturn, [])
                    | Suc m \<Rightarrow> searchDirectoryForReactTests m e owner repo sub (epath item)))
        else ret False)
       (searchDirectoryForReactTests n e owner repo rest basePath)"

text \<open>The loop of \<open>searchForTestFiles\<close> over the conventional directories.\<close>

fun searchPatterns :: "nat \<Rightarrow> env \<Rightarrow> string \<Rightarrow> string \<Rightarrow> string list \<Rightarrow> bool io" where
  "searchPatterns n e owner repo [] = (Ok False, [])"
| "searchPatterns n e owner repo (pattern # ps) =
     or_else
       (bind_io (request e (Contents owner repo pattern)) (\<lambda>r.
          case listing r of
            None \<Rightarrow> ret False
          | Some sub \<Rightarrow> searchDirectoryForReactTests n e owner repo sub pattern))
       (searchPatterns n e owner repo ps)"

definition testPatterns :: "string list" where
  "testPatterns = [''src'', ''__tests__'', ''test'', ''tests'']"

definition searchForTestFiles :: "nat \<Rightarrow> env \<Rightarrow> string \<Rightarrow> string \<Rightarrow> bool io" where
  "searchForTestFiles n e owner repo = searchPatterns n e owner repo testPatterns"

section \<open>Technology detection (REST-paginated script)\<close>

record tech =
  hasTS :: bool
  hasReact :: bool
  hasJest :: bool
  hasFrontendTests :: bool
  feLibs :: "string list"
  topics :: "string list"
  hasReactDeps :: bool
  hasFrontendTestLibs :: bool

text \<open>A string that is neither \<open>null\<close> nor empty.\<close>

definition present :: "string option \<Rightarrow> bool" where
  "present c = (case c of None \<Rightarrow> False | Some t \<Rightarrow> t \<noteq> [])"

text \<open>
  \<open>pkgJson\<close> as \<open>detectTech\<close> uses it: the parsed text when there is text, it parses and
  the value is truthy.
\<close>

definition manifest :: "env \<Rightarrow> string option \<Rightarrow> json option" where
  "manifest e pkgText =
     (case pkgText of
        None \<Rightarrow> None
      | Some t \<Rightarrow>
          if t = [] then None
          else (case JSON_parse e t of
                  None \<Rightarrow> None
                | Some j \<Rightarrow> if truthy j then Some j else None))"

definition jestConfigs :: "string list" where
  "jestConfigs =
     [''jest.config.js'', ''jest.config.cjs'', ''jest.config.mjs'', ''jest.config.ts'',
      ''jest.config.json'']"

text \<open>The loop over the candidate configuration files, left at the first one with content.\<close>

fun firstPresent :: "env \<Rightarrow> string \<Rightarrow> string \<Rightarrow> string list \<Rightarrow> bool io" where
  "firstPresent e owner repo [] = (Ok False, [])"
| "firstPresent e owner repo (file # files) =
     (case getRepoContent e owner repo file of
        (Ok content, l) \<Rightarrow>
          if present content then (Ok True, l) else after l (firstPresent e owner repo files)
      | (Throw err, l) \<Rightarrow> (Throw err, l)
      | (NoReturn, l) \<Rightarrow> (NoReturn, l))"

text \<open>The \<open>tsconfig\<close> check: the base file is only fetched when the first has no content.\<close>

definition tsconfigPresent :: "env \<Rightarrow> string \<Rightarrow> string \<Rightarrow> bool io" where
  "tsconfigPresent e owner repo =
     bind_io (getRepoContent e owner repo ''tsconfig.json'') (\<lambda>tsconfig.
       if present tsconfig then ret True
       else bind_io (getRepoContent e owner repo ''tsconfig.base.json'') (\<lambda>tsconfigBase.
              ret (present tsconfigBase)))"

text \<open>
  \<open>detectTech\<close> up to the source scan: the values of its local variables after the
  language breakdown, package.json, the topics and the configuration files.
\<close>

definition detectLayers :: "env \<Rightarrow> string \<Rightarrow> string \<Rightarrow> tech io" where
  "detectLayers e owner repo =
     bind_io (catch_io (getRepoLanguages e owner repo) []) (\<lambda>langs.
     bind_io (getRepoContent e owner repo ''package.json'') (\<lambda>pkgText.
     bind_io (catch_io (getRepoTopics e owner repo) []) (\<lambda>tps.
       let langTS = (case map_of langs ''TypeScript'' of None \<Rightarrow> False | Some n \<Rightarrow> 0 < n);
           pkgJson = manifest e pkgText;
           reactDeps = (case pkgJson of None \<Rightarrow> False
                        | Some j \<Rightarrow> pkgHasAnyDep j [''react'', ''react-dom'']);
           pkgTS = (case pkgJson of None \<Rightarrow> False | Some j \<Rightarrow> pkgHasAnyDep j [''typescript'']);
           pkgJest = (case pkgJson of None \<Rightarrow> False
                      | Some j \<Rightarrow> fe_hasJest (detectFrontendFromPkg e j));
           pkgLibs = (case pkgJson of None \<Rightarrow> [] | Some j \<Rightarrow> fe_libs (detectFrontendFromPkg e j));
           pkgTests = (case pkgJson of None \<Rightarrow> False
                       | Some j \<Rightarrow> fe_hasFrontendTests (detectFrontendFromPkg e j));
           pkgTestLibs = (case pkgJson of None \<Rightarrow> False
                          | Some j \<Rightarrow> fe_hasFrontendTestLibs (detectFrontendFromPkg e j));
           react = (reactDeps \<or> ''react'' \<in> set (map (toLowerCase e) tps))
       in
     bind_io (if langTS \<or> pkgTS then ret True else tsconfigPresent e owner repo) (\<lambda>ts.
     bind_io (if pkgJest then ret True else firstPresent e owner repo jestConfigs) (\<lambda>jest.
       ret \<lparr>hasTS = ts, hasReact = react, hasJest = jest, hasFrontendTests = pkgTests,
            feLibs = (if \<not> pkgJest \<and> jest \<and> ''jest'' \<notin> set pkgLibs then pkgLibs @ [''jest'']
                      else pkgLibs),
            topics = tps, hasReactDeps = reactDeps, hasFrontendTestLibs = pkgTestLibs\<rparr>)))))"

text \<open>
  \<open>detectTech\<close>: the layers, then the source scan when React and Jest were found but no
  test library, then the final rule. An exception of the scan is logged and dropped.
\<close>

definition detectTech :: "nat \<Rightarrow> env \<Rightarrow> string \<Rightarrow> string \<Rightarrow> tech io" where
  "detectTech n e owner repo =
     bind_io (detectLayers e owner repo) (\<lambda>s.
     bind_io (if hasReact s \<and> hasJest s \<and> \<not> hasFrontendTestLibs s
              then catch_io (searchForTestFiles n e owner repo) False
              else ret False) (\<lambda>foundTestFiles.
       let s' = (if foundTestFiles
                 then s\<lparr>hasFrontendTestLibs := True, feLibs := feLibs s @ [''test-files'']\<rparr>
                 else s)
       in ret (s'\<lparr>hasFrontendTests := (hasReact s' \<and> hasJest s' \<and> hasFrontendTestLibs s')\<rparr>)))"

section \<open>Technology detection (first script, GraphQL search)\<close>

text \<open>
  The first script has its own \<open>scriptsContain(pkgJson, term)\<close> and a \<open>detectTech\<close> that
  returns the three signals only and asks for the topics only when React was not found in
  package.json.
\<close>

record basic_tech =
  basic_hasTS :: bool
  basic_hasReact :: bool
  basic_hasJest :: bool

definition scriptsContain_basic :: "env \<Rightarrow> json \<Rightarrow> string \<Rightarrow> bool" where
  "scriptsContain_basic e pkgJson term =
     (let scripts = or_obj (get_prop pkgJson ''scripts'')
      in list_ex (\<lambda>s. str_includes (toLowerCase e s) term)
           (string_values (object_values scripts)))"

definition detectTech_basic :: "env \<Rightarrow> string \<Rightarrow> string \<Rightarrow> basic_tech io" where
  "detectTech_basic e owner repo =
     bind_io (catch_io (getRepoLanguages e owner repo) []) (\<lambda>langs.
     bind_io (getRepoContent e owner repo ''package.json'') (\<lambda>pkgText.
       let langTS = (case map_of langs ''TypeScript'' of None \<Rightarrow> False | Some n \<Rightarrow> 0 < n);
           pkgJson = manifest e pkgText;
           pkgReact = (case pkgJson of None \<Rightarrow> False
                       | Some j \<Rightarrow> pkgHasAnyDep j [''react'', ''react-dom'']);
           pkgTS = (case pkgJson of None \<Rightarrow> False | Some j \<Rightarrow> pkgHasAnyDep j [''typescript'']);
           pkgJest = (case pkgJson of None \<Rightarrow> False
                      | Some j \<Rightarrow>
                          pkgHasAnyDep j [''jest'', ''@jest/globals'', ''ts-jest'', ''babel-jest''] \<or>
                          scriptsContain_basic e j ''jest'')
       in
     bind_io (if pkgReact then ret True
              else bind_io (catch_io (getRepoTopics e owner repo) []) (\<lambda>tps.
                     ret (''react'' \<in> set (map (toLowerCase e) tps)))) (\<lambda>react.
     bind_io (if langTS \<or> pkgTS then ret True else tsconfigPresent e owner repo) (\<lambda>ts.
     bind_io (if pkgJest then ret True else firstPresent e owner repo jestConfigs) (\<lambda>jest.
       ret \<lparr>basic_hasTS = ts, basic_hasReact = react, basic_hasJest = jest\<rparr>)))))"

section \<open>The HTTP client\<close>

text \<open>
  What \<open>fetchWithTimeout\<close> resolves to: the status, the two rate-limit headers
  (\<open>headers.get\<close> gives \<open>null\<close>, here \<open>None\<close>, for a header that is not there) and the
  body read by \<open>res.json()\<close> (\<open>null\<close> when that fails).
\<close>

record response =
  res_status :: int
  remaining :: "string option"
  reset :: "string option"
  body :: "payload option"

datatype fetched = Aborted | Response response

definition ok :: "response \<Rightarrow> bool" where
  "ok res = (200 \<le> res_status res \<and> res_status res \<le> 299)"

text \<open>
  A JavaScript number that holds an integer, an infinity or \<open>NaN\<close>. \<open>to_double\<close> rounds an
  integer to the nearest double (53 significant bits, ties to the even neighbour, an
  infinity from \<open>2^1024\<close> on). The clock readings of \<open>Date.now()\<close> are integers that a
  double holds exactly.
\<close>

datatype number = NaN | NegInf | Fin int | PosInf

function bit_length :: "int \<Rightarrow> nat" where
  "bit_length a = (if a \<le> 0 then 0 else Suc (bit_length (a div 2)))"
  by auto

termination bit_length
  by (relation "measure nat") auto

declare bit_length.simps [simp del]

definition to_double :: "int \<Rightarrow> number" where
  "to_double n =
     (let a = \<bar>n\<bar> in
      if a < 2 ^ 53 then Fin n
      else
        (let e = bit_length a - 53;
             q = a div 2 ^ e;
             r = a mod 2 ^ e;
             m = (if 2 ^ e < 2 * r \<or> (2 * r = 2 ^ e \<and> odd q) then q + 1 else q) * 2 ^ e
         in if 2 ^ 1024 \<le> m then (if n < 0 then NegInf else PosInf)
            else Fin (if n < 0 then - m else m)))"

text \<open>
  \<open>x * 1000\<close>, \<open>x - now\<close> and \<open>x + 5000\<close>: multiplying by a positive number and adding
  or subtracting a finite one keeps \<open>NaN\<close> and the infinities and rounds a finite result
  (\<open>f\<close> is the operation on the integers). \<open>Math.max(0, x)\<close>.
\<close>

definition arith :: "(int \<Rightarrow> int) \<Rightarrow> number \<Rightarrow> number" where
  "arith f x = (case x of Fin a \<Rightarrow> to_double (f a) | _ \<Rightarrow> x)"

definition max0 :: "number \<Rightarrow> number" where
  "max0 x = (case x of NaN \<Rightarrow> NaN | NegInf \<Rightarrow> Fin 0 | Fin a \<Rightarrow> Fin (max 0 a) | PosInf \<Rightarrow> PosInf)"

text \<open>
  \<open>parseInt(s, 10)\<close>: leading white space, an optional sign, then the longest run of
  decimal digits; \<open>NaN\<close> when there is no digit, otherwise the double nearest to the
  integer the digits denote.
\<close>

definition is_space :: "char \<Rightarrow> bool" where
  "is_space c = (c \<in> set [CHR '' '', CHR 0x09, CHR 0x0A, CHR 0x0B, CHR 0x0C, CHR 0x0D])"

definition digit_value :: "char \<Rightarrow> int option" where
  "digit_value c = map_of (zip ''0123456789'' [0, 1, 2, 3, 4, 5, 6, 7, 8, 9]) c"

definition digits_value :: "string \<Rightarrow> int" where
  "digits_value ds = foldl (\<lambda>a c. 10 * a + (case digit_value c of None \<Rightarrow> 0 | Some d \<Rightarrow> d)) 0 ds"

definition parseInt :: "string \<Rightarrow> number" where
  "parseInt s =
     (let t = dropWhile is_space s;
          neg = (case t of [] \<Rightarrow> False | c # r \<Rightarrow> c = CHR ''-'');
          u = (case t of [] \<Rightarrow> [] | c # r \<Rightarrow> if c = CHR ''-'' \<or> c = CHR ''+'' then r else t);
          ds = takeWhile (\<lambda>c. digit_value c \<noteq> None) u
      in if ds = [] then NaN
         else to_double (if neg then - digits_value ds else digits_value ds))"

text \<open>
  \<open>handleRateLimit(res)\<close> at clock reading \<open>now\<close> (\<open>Date.now()\<close>, in milliseconds):
  either it returns \<open>false\<close> at once, or it sleeps \<open>waitMs\<close> and returns \<open>true\<close>.
\<close>

datatype backoff = Proceed | RetryAfter number

definition handleRateLimit :: "int \<Rightarrow> response \<Rightarrow> backoff" where
  "handleRateLimit now res =
     (if res_status res = 403 then
        (case reset res of
           None \<Rightarrow> Proceed
         | Some h \<Rightarrow>
             if remaining res = Some ''0'' \<and> h \<noteq> [] then
               (let resetEpoch = arith (\<lambda>r. r * 1000) (parseInt h);
                    waitMs = arith (\<lambda>w. w + 5000) (max0 (arith (\<lambda>r. r - now) resetEpoch))
                in RetryAfter waitMs)
             else Proceed)
      else Proceed)"

text \<open>
  \<open>sleep(ms)\<close>, the time until the timer of \<open>setTimeout(r, ms)\<close> fires: Node.js sets a
  delay that is \<open>NaN\<close>, below 1 or above \<open>2^31 - 1\<close> to 1 millisecond.
\<close>

definition sleep :: "number \<Rightarrow> int" where
  "sleep ms = (case ms of Fin d \<Rightarrow> if 1 \<le> d \<and> d \<le> 2147483647 then d else 1 | _ \<Rightarrow> 1)"

text \<open>
  \<open>ghGET(url)\<close>. The server is the sequence of answers to the successive attempts, each
  with the time it took to arrive. The first argument bounds the number of attempts;
  \<open>NoReturn\<close> says the bound was reached while the loop was still retrying. The result
  carries the clock readings at which the attempts were issued.
\<close>

fun ghGET :: "nat \<Rightarrow> (nat \<Rightarrow> nat \<times> fetched) \<Rightarrow> nat \<Rightarrow> int \<Rightarrow> gh_result outcome \<times> int list" where
  "ghGET 0 srv k t = (NoReturn, [])"
| "ghGET (Suc n) srv k t =
     (case srv k of
        (lat, Aborted) \<Rightarrow> (Throw FetchFailed, [t])
      | (lat, Response res) \<Rightarrow>
          (case (if res_status res = 403 then handleRateLimit (t + int lat) res else Proceed) of
             RetryAfter w \<Rightarrow>
               (case ghGET n srv (Suc k) (t + int lat + sleep w) of (r, ts) \<Rightarrow> (r, t # ts))
           | Proceed \<Rightarrow>
               (if res_status res = 404 then (Ok \<lparr>status = 404, data = None\<rparr>, [t])
                else if \<not> ok res then (Throw (HttpError (res_status res)), [t])
                else (Ok \<lparr>status = res_status res, data = body res\<rparr>, [t]))))"

text \<open>The responses on which \<open>ghGET\<close> goes round its loop again.\<close>

definition rate_limited :: "response \<Rightarrow> bool" where
  "rate_limited res =
     (res_status res = 403 \<and> remaining res = Some ''0'' \<and>
      reset res \<noteq> None \<and> reset res \<noteq> Some [])"

text \<open>A 403 answer announcing the end of the quota window at second \<open>r\<close>.\<close>

definition quota_exhausted :: "string \<Rightarrow> response" where
  "quota_exhausted h = \<lparr>res_status = 403, remaining = Some ''0'', reset = Some h, body = None\<rparr>"

section \<open>The driver of the REST-paginated script\<close>

text \<open>
  A row appended to the CSV file, by the arguments of \<open>appendCsvRow\<close>.
\<close>

record csv_row =
  nameWithOwner :: string
  stars :: int
  row_hasTS :: bool
  row_hasReact :: bool
  row_hasJest :: bool
  row_feLibs :: "string list"
  row_hasReactDeps :: bool
  row_hasFrontendTestLibs :: bool

text \<open>
  The state of \<open>main\<close>: the set \<open>processed\<close> (a JavaScript \<open>Set\<close>, kept in insertion
  order), \<open>totalQualified\<close>, \<open>reachedLimit\<close>, the rows appended so far, and three
  observations: the repositories handed to \<open>detectTech\<close> (those announced by the
  "Analisando" line), the search pages requested (query and page number), and how often
  the flag \<open>stopRequested\<close> has been read. The flag is set by a signal handler; the run
  is given its value at each read.
\<close>

record run =
  processed :: "string list"
  totalQualified :: int
  reachedLimit :: bool
  csv :: "csv_row list"
  analysed :: "string list"
  fetched :: "(string \<times> int) list"
  ticks :: nat

definition start :: run where
  "start = \<lparr>processed = [], totalQualified = 0, reachedLimit = False, csv = [],
            analysed = [], fetched = [], ticks = 0\<rparr>"

text \<open>
  How a loop body ends: normally, by \<open>break\<close>, or not at all because a call it awaits does
  not return; \<open>Exhausted\<close> marks a \<open>while\<close> loop cut off by the bound on its rounds.
\<close>

datatype flow = Next | Break | Stuck | Exhausted

text \<open>\<open>reachedLimit || stopRequested\<close>, and the state after the read.\<close>

definition stopping :: "(nat \<Rightarrow> bool) \<Rightarrow> run \<Rightarrow> bool" where
  "stopping stop st = (reachedLimit st \<or> stop (ticks st))"

definition tick :: "run \<Rightarrow> run" where
  "tick st = st\<lparr>ticks := Suc (ticks st)\<rparr>"

text \<open>\<open>MAX_ANALYZED > 0 && processed.size >= MAX_ANALYZED\<close>.\<close>

definition analysed_cap :: "config \<Rightarrow> nat \<Rightarrow> bool" where
  "analysed_cap cfg count =
     (case MAX_ANALYZED cfg of None \<Rightarrow> False | Some m \<Rightarrow> 0 < m \<and> m \<le> int count)"

text \<open>\<open>totalQualified >= MAX_QUALIFIED\<close>.\<close>

definition qualified_cap :: "config \<Rightarrow> int \<Rightarrow> bool" where
  "qualified_cap cfg qualified =
     (case MAX_QUALIFIED cfg of None \<Rightarrow> False | Some m \<Rightarrow> m \<le> qualified)"

definition make_row :: "item \<Rightarrow> tech \<Rightarrow> csv_row" where
  "make_row it t =
     \<lparr>nameWithOwner = full_name it, stars = stargazers_count it, row_hasTS = hasTS t,
      row_hasReact = hasReact t, row_hasJest = hasJest t, row_feLibs = feLibs t,
      row_hasReactDeps = hasReactDeps t,
      row_hasFrontendTestLibs = hasFrontendTestLibs t\<rparr>"

text \<open>
  The body of \<open>for (const it of items)\<close>. The \<open>try\<close> block around the analysis catches
  every exception and logs it.
\<close>

definition item_step ::
  "config \<Rightarrow> nat \<Rightarrow> env \<Rightarrow> (nat \<Rightarrow> bool) \<Rightarrow> item \<Rightarrow> run \<Rightarrow> run \<times> flow"
where
  "item_step cfg n e stop it st =
     (if stopping stop st then (tick st, Break)
      else if full_name it \<in> set (processed st) then (tick st, Next)
      else
        (let st1 = (tick st)\<lparr>processed := processed st @ [full_name it]\<rparr>
         in if analysed_cap cfg (length (processed st1))
            then (st1\<lparr>reachedLimit := True\<rparr>, Break)
            else
              (let st2 = st1\<lparr>analysed := analysed st1 @ [full_name it]\<rparr>
               in case fst (detectTech n e (owner_login it) (item_name it)) of
                    NoReturn \<Rightarrow> (st2, Stuck)
                  | Throw err \<Rightarrow> (st2, Next)
                  | Ok t \<Rightarrow>
                      (case fst (detectCourseOrBoilerplate cfg e (owner_login it) (item_name it)
                                   (Some (item_name it)) (description it) (topics t)) of
                         NoReturn \<Rightarrow> (st2, Stuck)
                       | Throw err \<Rightarrow> (st2, Next)
                       | Ok isCourseOrBoilerplate \<Rightarrow>
                           if EXCLUDE_COURSE_BOILERPLATE cfg \<and> isCourseOrBoilerplate
                           then (st2, Next)
                           else if \<not> (hasTS t \<and> hasReact t) then (st2, Next)
                           else if \<not> hasFrontendTests t then (st2, Next)
                           else
                             (let st3 = st2\<lparr>csv := csv st2 @ [make_row it t],
                                             totalQualified := totalQualified st2 + 1\<rparr>
                              in if qualified_cap cfg (totalQualified st3)
                                 then (st3\<lparr>reachedLimit := True\<rparr>, Break)
                                 else (st3, Next))))))"

fun items_loop ::
  "config \<Rightarrow> nat \<Rightarrow> env \<Rightarrow> (nat \<Rightarrow> bool) \<Rightarrow> item list \<Rightarrow> run \<Rightarrow> run \<times> flow"
where
  "items_loop cfg n e stop [] st = (st, Next)"
| "items_loop cfg n e stop (it # its) st =
     (case item_step cfg n e stop it st of
        (st', Next) \<Rightarrow> items_loop cfg n e stop its st'
      | (st', fl) \<Rightarrow> (st', fl))"

text \<open>\<open>searchReposREST(query, page, perPage)\<close>: \<open>total_count\<close> and \<open>items\<close>.\<close>

definition searchReposREST ::
  "env \<Rightarrow> string \<Rightarrow> int \<Rightarrow> int option \<Rightarrow> (int \<times> item list) io"
where
  "searchReposREST e query page perPage =
     bind_io (request e (SearchRepositories (encodeURIComponent query) perPage page)) (\<lambda>r.
       ret (if status r \<noteq> 200 then (0, [])
            else (case data r of
                    Some (SearchObj total_count found) \<Rightarrow> (total_count, found)
                  | _ \<Rightarrow> (0, []))))"

text \<open>
  \<open>Math.ceil(a / b)\<close> for integers with \<open>b\<close> not zero, and the test
  \<open>page >= Math.ceil(Math.min(total_count, 1000) / BATCH_SIZE)\<close>: a \<open>BATCH_SIZE\<close> of
  \<open>NaN\<close> makes it false, a \<open>BATCH_SIZE\<close> of zero compares the page with an infinity or
  with \<open>NaN\<close>.
\<close>

definition ceil_div :: "int \<Rightarrow> int \<Rightarrow> int" where
  "ceil_div a b = - ((- a) div b)"

definition maxPages :: "int \<Rightarrow> int \<Rightarrow> int" where
  "maxPages total_count batch = ceil_div (min total_count 1000) batch"

definition last_page :: "config \<Rightarrow> int \<Rightarrow> int \<Rightarrow> bool" where
  "last_page cfg page total_count =
     (case BATCH_SIZE cfg of
        None \<Rightarrow> False
      | Some b \<Rightarrow> if b = 0 then min total_count 1000 < 0 else maxPages total_count b \<le> page)"

text \<open>
  The \<open>while\<close> loop over the pages of one query; the first argument bounds its rounds. An
  exception of the search ends the query.
\<close>

fun pages_loop ::
  "nat \<Rightarrow> config \<Rightarrow> nat \<Rightarrow> env \<Rightarrow> (nat \<Rightarrow> bool) \<Rightarrow> string \<Rightarrow> int \<Rightarrow> run \<Rightarrow> run \<times> flow"
where
  "pages_loop 0 cfg n e stop q page st = (st, Exhausted)"
| "pages_loop (Suc k) cfg n e stop q page st =
     (if stopping stop st then (tick st, Next)
      else
        (let st1 = (tick st)\<lparr>fetched := fetched st @ [(q, page)]\<rparr>
         in case fst (searchReposREST e q page (BATCH_SIZE cfg)) of
              NoReturn \<Rightarrow> (st1, Stuck)
            | Throw err \<Rightarrow> (st1, Next)
            | Ok (total_count, items) \<Rightarrow>
                if items = [] then (st1, Next)
                else
                  (case items_loop cfg n e stop items st1 of
                     (st2, Stuck) \<Rightarrow> (st2, Stuck)
                   | (st2, fl) \<Rightarrow>
                       if stopping stop st2 then (tick st2, Next)
                       else if last_page cfg page total_count then (tick st2, Next)
                       else pages_loop k cfg n e stop q (page + 1) (tick st2))))"

text \<open>The \<open>for\<close> loop over the queries, and \<open>main\<close> from the empty state.\<close>

fun queries_loop ::
  "nat \<Rightarrow> config \<Rightarrow> nat \<Rightarrow> env \<Rightarrow> (nat \<Rightarrow> bool) \<Rightarrow> string list \<Rightarrow> run \<Rightarrow> run \<times> flow"
where
  "queries_loop k cfg n e stop [] st = (st, Next)"
| "queries_loop k cfg n e stop (q # qs) st =
     (if stopping stop st then (tick st, Break)
      else
        (case pages_loop k cfg n e stop q 1 (tick st) of
           (st', Next) \<Rightarrow> queries_loop k cfg n e stop qs st'
         | (st', fl) \<Rightarrow> (st', fl)))"

definition main ::
  "nat \<Rightarrow> config \<Rightarrow> nat \<Rightarrow> env \<Rightarrow> (nat \<Rightarrow> bool) \<Rightarrow> string list \<Rightarrow> run \<times> flow"
where
  "main k cfg n e stop queries = queries_loop k cfg n e stop queries start"

section \<open>What the driver is expected to maintain\<close>

text \<open>A row all four of whose signals are true.\<close>

definition qualified_row :: "csv_row \<Rightarrow> bool" where
  "qualified_row r = (row_hasTS r \<and> row_hasReact r \<and> row_hasJest r \<and> row_hasFrontendTestLibs r)"

text \<open>
  No name is registered, analysed or written twice, and what is written was analysed and
  what was analysed was registered.
\<close>

definition dedup :: "run \<Rightarrow> bool" where
  "dedup st =
     (distinct (processed st) \<and> distinct (analysed st) \<and>
      set (analysed st) \<subseteq> set (processed st) \<and>
      distinct (map nameWithOwner (csv st)) \<and>
      (\<forall>r\<in>set (csv st). nameWithOwner r \<in> set (analysed st)))"

text \<open>
  Under a positive cap \<open>m\<close> on analysed repositories: at most \<open>m\<close> names are registered,
  the analysed ones are the first \<open>m - 1\<close> of them, the run is over once \<open>m\<close> are
  registered, and only analysed ones are written.
\<close>

definition capped :: "int \<Rightarrow> run \<Rightarrow> bool" where
  "capped m st =
     (int (length (processed st)) \<le> m \<and>
      analysed st = take (nat m - 1) (processed st) \<and>
      (int (length (processed st)) = m \<longrightarrow> reachedLimit st) \<and>
      (\<forall>r\<in>set (csv st). nameWithOwner r \<in> set (analysed st)))"

text \<open>The \<open>total_count\<close> that the search reports for a page, if it answers.\<close>

definition reported :: "env \<Rightarrow> string \<Rightarrow> int \<Rightarrow> int \<Rightarrow> int option" where
  "reported e q b page =
     (case fst (searchReposREST e q page (Some b)) of
        Ok (total_count, found) \<Rightarrow> Some total_count
      | _ \<Rightarrow> None)"

text \<open>
  The pages that may be requested for a query when paging starts at \<open>first\<close>: the first
  one, and any later one whose predecessor answered with a \<open>total_count\<close> that allows it.
\<close>

definition allowed :: "env \<Rightarrow> int \<Rightarrow> string \<Rightarrow> int \<Rightarrow> int \<Rightarrow> bool" where
  "allowed e b q first p =
     (first \<le> p \<and>
      (first < p \<longrightarrow> (\<exists>t. reported e q b (p - 1) = Some t \<and> p \<le> maxPages t b)))"


section \<open>The GraphQL-paginated script with filters\<close>

text \<open>
  This script counts Jest or Testing Library in package.json as front-end tests, and a
  Jest configuration file as well; its \<open>detectTech\<close> returns six values.
\<close>

record gql_frontend =
  gql_fe_hasFrontendTests :: bool
  gql_fe_libs :: "string list"
  gql_fe_hasJest :: bool
  gql_fe_hasRTL :: bool

definition detectFrontendFromPkg_gql :: "env \<Rightarrow> json \<Rightarrow> gql_frontend" where
  "detectFrontendFromPkg_gql e pkgJson =
     (let hasJest =
            (pkgHasAnyDep pkgJson [''jest'', ''@jest/globals'', ''ts-jest'', ''babel-jest''] \<or>
             scriptsContain e pkgJson [''jest'']);
          hasRTL = pkgHasAnyDep pkgJson
            [''@testing-library/react'', ''@testing-library/jest-dom'',
             ''@testing-library/user-event'']
      in \<lparr>gql_fe_hasFrontendTests = (hasJest \<or> hasRTL),
          gql_fe_libs = (if hasRTL then [''testing-library''] else []) @
                        (if hasJest then [''jest''] else []),
          gql_fe_hasJest = hasJest, gql_fe_hasRTL = hasRTL\<rparr>)"

record gql_tech =
  gql_hasTS :: bool
  gql_hasReact :: bool
  gql_hasJest :: bool
  gql_hasFrontendTests :: bool
  gql_feLibs :: "string list"
  gql_topics :: "string list"

definition detectTech_gql :: "env \<Rightarrow> string \<Rightarrow> string \<Rightarrow> gql_tech io" where
  "detectTech_gql e owner repo =
     bind_io (catch_io (getRepoLanguages e owner repo) []) (\<lambda>langs.
     bind_io (getRepoContent e owner repo ''package.json'') (\<lambda>pkgText.
     bind_io (catch_io (getRepoTopics e owner repo) []) (\<lambda>tps.
       let langTS = (case map_of langs ''TypeScript'' of None \<Rightarrow> False | Some n \<Rightarrow> 0 < n);
           pkgJson = manifest e pkgText;
           pkgReact = (case pkgJson of None \<Rightarrow> False
                       | Some j \<Rightarrow> pkgHasAnyDep j [''react'', ''react-dom'']);
           pkgTS = (case pkgJson of None \<Rightarrow> False | Some j \<Rightarrow> pkgHasAnyDep j [''typescript'']);
           pkgJest = (case pkgJson of None \<Rightarrow> False
                      | Some j \<Rightarrow> gql_fe_hasJest (detectFrontendFromPkg_gql e j));
           pkgLibs = (case pkgJson of None \<Rightarrow> []
                      | Some j \<Rightarrow> gql_fe_libs (detectFrontendFromPkg_gql e j));
           pkgTests = (case pkgJson of None \<Rightarrow> False
                       | Some j \<Rightarrow> gql_fe_hasFrontendTests (detectFrontendFromPkg_gql e j));
           react = (pkgReact \<or> ''react'' \<in> set (map (toLowerCase e) tps))
       in
     bind_io (if langTS \<or> pkgTS then ret True else tsconfigPresent e owner repo) (\<lambda>ts.
     bind_io (if pkgJest then ret True else firstPresent e owner repo jestConfigs) (\<lambda>jest.
       ret \<lparr>gql_hasTS = ts, gql_hasReact = react, gql_hasJest = jest,
            gql_hasFrontendTests = (pkgTests \<or> jest),
            gql_feLibs = (if \<not> pkgJest \<and> jest \<and> ''jest'' \<notin> set pkgLibs then pkgLibs @ [''jest'']
                          else pkgLibs),
            gql_topics = tps\<rparr>)))))"

text \<open>
  The body of \<open>for (const edge of edges)\<close> in this script's \<open>main\<close>. A search hit carries
  \<open>owner.login\<close>, \<open>name\<close>, \<open>description\<close> and \<open>stargazerCount\<close>; the key is
  \<open>owner/name\<close>. The cap on analysed repositories is tested with a strict comparison. The row has
  no \<open>hasReactDeps\<close> and no \<open>hasFrontendTestLibs\<close>, which print as "no".
\<close>

definition analysed_cap_gql :: "config \<Rightarrow> nat \<Rightarrow> bool" where
  "analysed_cap_gql cfg count =
     (case MAX_ANALYZED cfg of None \<Rightarrow> False | Some m \<Rightarrow> 0 < m \<and> m < int count)"

definition make_row_gql :: "item \<Rightarrow> gql_tech \<Rightarrow> csv_row" where
  "make_row_gql it t =
     \<lparr>nameWithOwner = owner_login it @ ''/'' @ item_name it, stars = stargazers_count it,
      row_hasTS = gql_hasTS t, row_hasReact = gql_hasReact t, row_hasJest = gql_hasJest t,
      row_feLibs = gql_feLibs t, row_hasReactDeps = False, row_hasFrontendTestLibs = False\<rparr>"

definition item_step_gql ::
  "config \<Rightarrow> env \<Rightarrow> (nat \<Rightarrow> bool) \<Rightarrow> item \<Rightarrow> run \<Rightarrow> run \<times> flow"
where
  "item_step_gql cfg e stop it st =
     (let key = owner_login it @ ''/'' @ item_name it
      in if stopping stop st then (tick st, Break)
         else if key \<in> set (processed st) then (tick st, Next)
         else
           (let st1 = (tick st)\<lparr>processed := processed st @ [key]\<rparr>
            in if analysed_cap_gql cfg (length (processed st1))
               then (st1\<lparr>reachedLimit := True\<rparr>, Break)
               else
                 (let st2 = st1\<lparr>analysed := analysed st1 @ [key]\<rparr>
                  in case fst (detectTech_gql e (owner_login it) (item_name it)) of
                       NoReturn \<Rightarrow> (st2, Stuck)
                     | Throw err \<Rightarrow> (st2, Next)
                     | Ok t \<Rightarrow>
                         (case fst (detectCourseOrBoilerplate cfg e (owner_login it)
                                      (item_name it) (Some (item_name it)) (description it)
                                      (gql_topics t)) of
                            NoReturn \<Rightarrow> (st2, Stuck)
                          | Throw err \<Rightarrow> (st2, Next)
                          | Ok isCourseOrBoilerplate \<Rightarrow>
                              if EXCLUDE_COURSE_BOILERPLATE cfg \<and> isCourseOrBoilerplate
                              then (st2, Next)
                              else if \<not> (gql_hasTS t \<and> gql_hasReact t) then (st2, Next)
                              else if REQUIRE_FRONTEND_TESTS cfg \<and> \<not> gql_hasFrontendTests t
                              then (st2, Next)
                              else
                                (let st3 = st2\<lparr>csv := csv st2 @ [make_row_gql it t],
                                                totalQualified := totalQualified st2 + 1\<rparr>
                                 in if qualified_cap cfg (totalQualified st3)
                                    then (st3\<lparr>reachedLimit := True\<rparr>, Break)
                                    else (st3, Next))))))"

section \<open>What the API holds, seen from outside the program\<close>

text \<open>
  The text of a file of the repository: the request for its path is answered with
  status 200 and a body whose encoding is base64 and whose content is not empty. A file
  has text when that text is not empty.
\<close>

definition file_text :: "env \<Rightarrow> string \<Rightarrow> string \<Rightarrow> string \<Rightarrow> string option" where
  "file_text e owner repo path =
     (case api e (Contents owner repo (encodeURIComponent path)) of
        Ok r \<Rightarrow>
          (if status r = 200 then
             (case data r of
                Some (FileObj enc c) \<Rightarrow>
                  if enc = ''base64'' \<and> c \<noteq> [] then Some (base64 e c) else None
              | _ \<Rightarrow> None)
           else None)
      | _ \<Rightarrow> None)"

definition has_text :: "env \<Rightarrow> string \<Rightarrow> string \<Rightarrow> string \<Rightarrow> bool" where
  "has_text e owner repo path =
     (case file_text e owner repo path of None \<Rightarrow> False | Some t \<Rightarrow> t \<noteq> [])"

text \<open>
  The language breakdown reports TypeScript bytes: the request is answered with status
  200 and an object whose entry for TypeScript is positive. A request that fails
  reports nothing. Likewise the topic names: those of an answer with status 200, none
  otherwise.
\<close>

definition languageTS :: "env \<Rightarrow> string \<Rightarrow> string \<Rightarrow> bool" where
  "languageTS e owner repo =
     (case api e (Languages owner repo) of
        Ok r \<Rightarrow>
          status r = 200 \<and>
          (case data r of
             Some (LanguagesObj kvs) \<Rightarrow>
               (case map_of kvs ''TypeScript'' of None \<Rightarrow> False | Some n \<Rightarrow> 0 < n)
           | _ \<Rightarrow> False)
      | _ \<Rightarrow> False)"

definition topic_names :: "env \<Rightarrow> string \<Rightarrow> string \<Rightarrow> string list" where
  "topic_names e owner repo =
     (case api e (Topics owner repo) of
        Ok r \<Rightarrow>
          (if status r = 200 then (case data r of Some (TopicsObj ns) \<Rightarrow> ns | _ \<Rightarrow> [])
           else [])
      | _ \<Rightarrow> [])"

text \<open>
  The manifest: the value package.json parses to, when the file has text and the value
  is truthy. A manifest lists a package in a section when the section has an entry of
  that name with a truthy value, and lists it when one of the two sections does. A
  script of the manifest mentions a term when the term occurs in the lower-cased text
  of one of the string values of \<open>scripts\<close>.
\<close>

definition package_json :: "env \<Rightarrow> string \<Rightarrow> string \<Rightarrow> json option" where
  "package_json e owner repo =
     (case file_text e owner repo ''package.json'' of
        None \<Rightarrow> None
      | Some t \<Rightarrow>
          if t = [] then None
          else (case JSON_parse e t of
                  None \<Rightarrow> None
                | Some j \<Rightarrow> if truthy j then Some j else None))"

definition lists :: "json \<Rightarrow> string \<Rightarrow> string \<Rightarrow> bool" where
  "lists pkgJson section name = truthy_opt (get_prop (or_obj (get_prop pkgJson section)) name)"

definition listed :: "json \<Rightarrow> string \<Rightarrow> bool" where
  "listed pkgJson name =
     (lists pkgJson ''dependencies'' name \<or> lists pkgJson ''devDependencies'' name)"

definition script_mentions :: "env \<Rightarrow> json \<Rightarrow> string \<Rightarrow> bool" where
  "script_mentions e pkgJson term =
     (\<exists>s\<in>set (string_values (object_values (or_obj (get_prop pkgJson ''scripts'')))).
        sublist term (toLowerCase e s))"

definition manifest_lists :: "env \<Rightarrow> string \<Rightarrow> string \<Rightarrow> string list \<Rightarrow> bool" where
  "manifest_lists e owner repo names =
     (case package_json e owner repo of
        None \<Rightarrow> False
      | Some j \<Rightarrow> \<exists>name\<in>set names. listed j name)"

section \<open>When the detection is expected to throw\<close>

text \<open>The files \<open>detectTech\<close> fetches outside a \<open>catch\<close>.\<close>

definition fetched_files :: "string list" where
  "fetched_files =
     [''package.json'', ''tsconfig.json'', ''tsconfig.base.json'', ''jest.config.js'',
      ''jest.config.cjs'', ''jest.config.mjs'', ''jest.config.ts'', ''jest.config.json'']"

text \<open>The API answers the requests of the layers of \<open>detectTech\<close> for this repository.\<close>

definition answers :: "env \<Rightarrow> string \<Rightarrow> string \<Rightarrow> bool" where
  "answers e owner repo =
     (api e (Languages owner repo) \<noteq> NoReturn \<and> api e (Topics owner repo) \<noteq> NoReturn \<and>
      (\<forall>f\<in>set fetched_files.
         api e (Contents owner repo (encodeURIComponent f)) \<noteq> NoReturn))"

text \<open>
  Files asked for in turn up to the first that has text: the exception of the first
  request that fails, if one fails before a file with text is met.
\<close>

fun first_failure :: "env \<Rightarrow> string \<Rightarrow> string \<Rightarrow> string list \<Rightarrow> gh_error option" where
  "first_failure e owner repo [] = None"
| "first_failure e owner repo (f # fs) =
     (case api e (Contents owner repo (encodeURIComponent f)) of
        Throw err \<Rightarrow> Some err
      | _ \<Rightarrow> if has_text e owner repo f then None else first_failure e owner repo fs)"

text \<open>
  The exception \<open>detectTech\<close> is expected to pass on: that of the request for
  package.json; otherwise, unless the language breakdown or the manifest shows
  TypeScript, that of a tsconfig file; otherwise, unless the manifest shows Jest (one of
  its four packages listed, or a script that mentions it), that of a jest.config file.
\<close>

definition typescript_known :: "env \<Rightarrow> string \<Rightarrow> string \<Rightarrow> bool" where
  "typescript_known e owner repo =
     (languageTS e owner repo \<or> manifest_lists e owner repo [''typescript''])"

definition jest_known :: "env \<Rightarrow> string \<Rightarrow> string \<Rightarrow> bool" where
  "jest_known e owner repo =
     (manifest_lists e owner repo [''jest'', ''@jest/globals'', ''ts-jest'', ''babel-jest''] \<or>
      (case package_json e owner repo of
         None \<Rightarrow> False
       | Some j \<Rightarrow> script_mentions e j ''jest''))"

definition failure :: "env \<Rightarrow> string \<Rightarrow> string \<Rightarrow> gh_error option" where
  "failure e owner repo =
     (case api e (Contents owner repo (encodeURIComponent ''package.json'')) of
        Throw err \<Rightarrow> Some err
      | _ \<Rightarrow>
          (case (if typescript_known e owner repo then None
                 else first_failure e owner repo [''tsconfig.json'', ''tsconfig.base.json'']) of
             Some err \<Rightarrow> Some err
           | None \<Rightarrow>
               if jest_known e owner repo then None
               else first_failure e owner repo
                      [''jest.config.js'', ''jest.config.cjs'', ''jest.config.mjs'',
                       ''jest.config.ts'', ''jest.config.json'']))"

section \<open>What the source scan looks for\<close>

text \<open>
  The test-file naming convention: a name that ends in .test.ts, .test.tsx, .spec.ts or
  .spec.tsx. The text of a React test: it mentions \<open>import { render }\<close> and
  \<open>@testing-library/react\<close>, or one of the enzyme markers enzyme, shallow, mount.
\<close>

definition test_file_name :: "string \<Rightarrow> bool" where
  "test_file_name name =
     (suffix ''.test.ts'' name \<or> suffix ''.test.tsx'' name \<or>
      suffix ''.spec.ts'' name \<or> suffix ''.spec.tsx'' name)"

definition react_test_text :: "string \<Rightarrow> bool" where
  "react_test_text c =
     ((sublist ''import { render }'' c \<and> sublist ''@testing-library/react'' c) \<or>
      sublist ''enzyme'' c \<or> sublist ''shallow'' c \<or> sublist ''mount'' c)"

text \<open>
  A listed file counts when its name follows the convention and its text is that of a
  React test.
\<close>

definition positive :: "env \<Rightarrow> string \<Rightarrow> string \<Rightarrow> entry \<Rightarrow> bool" where
  "positive e owner repo it =
     (etype it = ''file'' \<and> test_file_name (ename it) \<and>
      (case file_text e owner repo (epath it) of
         None \<Rightarrow> False
       | Some c \<Rightarrow> react_test_text c))"

text \<open>
  The number of segments of a path, and the listing the API gives for a directory: an
  answer with status 200 whose body is an array.
\<close>

definition segments :: "string \<Rightarrow> nat" where
  "segments p = Suc (count_list p (CHR ''/''))"

definition dir_listing :: "env \<Rightarrow> string \<Rightarrow> string \<Rightarrow> string \<Rightarrow> entry list option" where
  "dir_listing e owner repo p =
     (case api e (Contents owner repo p) of
        Ok r \<Rightarrow>
          (if status r = 200 then (case data r of Some (Listing xs) \<Rightarrow> Some xs | _ \<Rightarrow> None)
           else None)
      | _ \<Rightarrow> None)"

text \<open>
  A listing holds a React test when it lists such a file, or lists a directory other than
  node_modules and .git, reached from a base path of fewer than three segments, whose own
  listing holds one.
\<close>

inductive has_react_test :: "env \<Rightarrow> string \<Rightarrow> string \<Rightarrow> entry list \<Rightarrow> string \<Rightarrow> bool"
  for e :: env and owner :: string and repo :: string
where
  here: "it \<in> set items \<Longrightarrow> positive e owner repo it \<Longrightarrow>
         has_react_test e owner repo items basePath"
| below: "it \<in> set items \<Longrightarrow> etype it = ''dir'' \<Longrightarrow> ename it \<noteq> ''node_modules'' \<Longrightarrow>
          ename it \<noteq> ''.git'' \<Longrightarrow> segments basePath < 3 \<Longrightarrow>
          dir_listing e owner repo (epath it) = Some sub \<Longrightarrow>
          has_react_test e owner repo sub (epath it) \<Longrightarrow>
          has_react_test e owner repo items basePath"

code_pred has_react_test .

text \<open>
  The API answers every request, and the entries of a listing lie one level or more
  below the directory listed.
\<close>

definition responsive :: "env \<Rightarrow> bool" where
  "responsive e = (\<forall>u. api e u \<noteq> NoReturn)"

definition nested :: "env \<Rightarrow> string \<Rightarrow> string \<Rightarrow> bool" where
  "nested e owner repo =
     (\<forall>p sub. dir_listing e owner repo p = Some sub \<longrightarrow>
        (\<forall>it\<in>set sub. segments p < segments (epath it)))"

text \<open>
  One of the conventional directories src, __tests__, test, tests has a listing that
  holds a React test.
\<close>

definition tree_has_react_test :: "env \<Rightarrow> string \<Rightarrow> string \<Rightarrow> bool" where
  "tree_has_react_test e owner repo =
     (\<exists>p\<in>set [''src'', ''__tests__'', ''test'', ''tests'']. \<exists>sub.
        dir_listing e owner repo p = Some sub \<and> has_react_test e owner repo sub p)"

section \<open>Case-insensitive keyword matching\<close>

text \<open>
  Lower-casing of ASCII text: the letters A..Z become a..z and nothing else changes. A
  runtime lower-cases ASCII text when its \<open>toLowerCase\<close> does this on every text made
  of ASCII characters only; on other text nothing is asked of it.
\<close>

definition ascii_lower :: "char \<Rightarrow> char" where
  "ascii_lower c =
     (case map_of (zip ''ABCDEFGHIJKLMNOPQRSTUVWXYZ'' ''abcdefghijklmnopqrstuvwxyz'') c of
        None \<Rightarrow> c
      | Some l \<Rightarrow> l)"

definition ascii :: "string \<Rightarrow> bool" where
  "ascii s = list_all (\<lambda>c. (of_char c :: nat) < 128) s"

definition lowers_ascii :: "env \<Rightarrow> bool" where
  "lowers_ascii e = (\<forall>s. ascii s \<longrightarrow> toLowerCase e s = map ascii_lower s)"

text \<open>The topics written one after the other with a blank between neighbours.\<close>

definition spaced :: "string list \<Rightarrow> string" where
  "spaced ts = (case ts of [] \<Rightarrow> [] | t # r \<Rightarrow> t @ concat (map (\<lambda>x. CHR '' '' # x) r))"

text \<open>All keywords in force under a configuration, and \<open>s || ''\<close>.\<close>

definition noise_keywords :: "config \<Rightarrow> string list" where
  "noise_keywords cfg =
     COURSE_KEYWORDS_DEFAULT @ EXTRA_COURSE_KEYWORDS cfg @
     BOILERPLATE_KEYWORDS_DEFAULT @ EXTRA_BOILERPLATE_KEYWORDS cfg"

definition or_empty :: "string option \<Rightarrow> string" where
  "or_empty s = (case s of None \<Rightarrow> [] | Some t \<Rightarrow> t)"

section \<open>Sample inputs\<close>

text \<open>
  A server whose quota is exhausted, with the reset header \<open>h\<close>: the first attempt is
  refused, the second is served. The header names second 1700000000 in one sample, a
  second thirty days after the request in another, and an HTTP date in a third. A
  server that refuses every attempt with a reset header that is not a number.
\<close>

definition served :: response where
  "served = \<lparr>res_status = 200, remaining = Some ''4999'', reset = Some ''1700003600'',
             body = Some (TopicsObj [''react''])\<rparr>"

definition throttled :: "string \<Rightarrow> nat \<Rightarrow> nat \<times> fetched" where
  "throttled h k = (if k = 0 then (120, Response (quota_exhausted h)) else (80, Response served))"

definition throttled_once :: "nat \<Rightarrow> nat \<times> fetched" where
  "throttled_once = throttled ''1700000000''"

definition throttled_far :: "nat \<Rightarrow> nat \<times> fetched" where
  "throttled_far = throttled ''1702592000''"

definition throttled_dated :: "nat \<Rightarrow> nat \<times> fetched" where
  "throttled_dated = throttled ''Wed, 21 Oct 2026 07:28:00 GMT''"

definition throttled_for_ever :: "nat \<Rightarrow> nat \<times> fetched" where
  "throttled_for_ever k = (120, Response (quota_exhausted ''soon''))"

text \<open>A server that refuses with 403 but names no reset time.\<close>

definition forbidden :: "nat \<Rightarrow> nat \<times> fetched" where
  "forbidden k =
     (35, Response \<lparr>res_status = 403, remaining = Some ''0'', reset = None, body = None\<rparr>)"

text \<open>
  The sample runtimes lower-case with \<open>map ascii_lower\<close>; the sample texts are ASCII.
\<close>

text \<open>
  A repository whose package.json is the manifest of the specification's example
  (react in dependencies; jest and @testing-library/react in devDependencies), with and
  without typescript among the devDependencies. Its language breakdown reports only
  JavaScript and nothing else exists (404).
\<close>

definition example_pkg :: json where
  "example_pkg =
     JObj [(''dependencies'', JObj [(''react'', JStr ''^18.0.0'')]),
           (''devDependencies'',
              JObj [(''jest'', JStr ''^29.0.0''), (''@testing-library/react'', JStr ''^14.0.0'')])]"

definition example_pkg_ts :: json where
  "example_pkg_ts =
     JObj [(''dependencies'', JObj [(''react'', JStr ''^18.0.0'')]),
           (''devDependencies'',
              JObj [(''jest'', JStr ''^29.0.0''), (''@testing-library/react'', JStr ''^14.0.0''),
                    (''typescript'', JStr ''^5.0.0'')])]"

definition file_ok :: "string \<Rightarrow> gh_result outcome" where
  "file_ok text = Ok \<lparr>status = 200, data = Some (FileObj ''base64'' text)\<rparr>"

definition not_found :: "gh_result outcome" where
  "not_found = Ok \<lparr>status = 404, data = None\<rparr>"

definition js_repo :: "json \<Rightarrow> env" where
  "js_repo pkg =
     \<lparr>api = (\<lambda>u. if u = Languages ''acme'' ''shop''
                 then Ok \<lparr>status = 200, data = Some (LanguagesObj [(''JavaScript'', 52000)])\<rparr>
                 else if u = Contents ''acme'' ''shop'' ''package.json'' then file_ok ''pkg''
                 else not_found),
      base64 = (\<lambda>s. s),
      JSON_parse = (\<lambda>s. if s = ''pkg'' then Some pkg else None),
      toLowerCase = map ascii_lower\<rparr>"

text \<open>A repository for which the API answers 500 to the request for package.json.\<close>

definition manifest_down :: env where
  "manifest_down =
     \<lparr>api = (\<lambda>u. if u = Contents ''acme'' ''shop'' ''package.json'' then Throw (HttpError 500)
                 else not_found),
      base64 = (\<lambda>s. s), JSON_parse = (\<lambda>s. None), toLowerCase = map ascii_lower\<rparr>"

text \<open>
  The repository of the example manifest with a tsconfig.base.json that has text.
\<close>

definition tsconfig_repo :: env where
  "tsconfig_repo =
     (js_repo example_pkg)\<lparr>api := (\<lambda>u.
        if u = Contents ''acme'' ''shop'' ''tsconfig.base.json'' then file_ok ''{}''
        else api (js_repo example_pkg) u)\<rparr>"

text \<open>
  A repository of which nothing exists but for which the API answers 503 to the request
  for the file \<open>f\<close>.
\<close>

definition broken_file :: "string \<Rightarrow> env" where
  "broken_file f =
     \<lparr>api = (\<lambda>u. if u = Contents ''acme'' ''shop'' f then Throw (HttpError 503)
                 else not_found),
      base64 = (\<lambda>s. s), JSON_parse = (\<lambda>s. None), toLowerCase = map ascii_lower\<rparr>"

text \<open>A repository whose language breakdown and topics cannot be fetched; no file exists.\<close>

definition flaky :: env where
  "flaky =
     \<lparr>api = (\<lambda>u. if u = Languages ''acme'' ''shop'' \<or> u = Topics ''acme'' ''shop''
                 then Throw (HttpError 502) else not_found),
      base64 = (\<lambda>s. s), JSON_parse = (\<lambda>s. None), toLowerCase = map ascii_lower\<rparr>"

text \<open>
  A repository with react and jest in package.json but no test library, whose tests live
  in src/components: the scan has to enter two listings to find Button.test.tsx.
\<close>

definition scan_pkg :: json where
  "scan_pkg =
     JObj [(''dependencies'', JObj [(''react'', JStr ''^18.0.0'')]),
           (''devDependencies'', JObj [(''jest'', JStr ''^29.0.0'')])]"

definition dir_ok :: "entry list \<Rightarrow> gh_result outcome" where
  "dir_ok items = Ok \<lparr>status = 200, data = Some (Listing items)\<rparr>"

definition scan_repo :: env where
  "scan_repo =
     \<lparr>api = (\<lambda>u.
         if u = Languages ''acme'' ''ui''
         then Ok \<lparr>status = 200, data = Some (LanguagesObj [(''TypeScript'', 91000)])\<rparr>
         else if u = Contents ''acme'' ''ui'' ''package.json'' then file_ok ''pkg''
         else if u = Contents ''acme'' ''ui'' ''src''
         then dir_ok [\<lparr>etype = ''file'', ename = ''index.ts'', epath = ''src/index.ts''\<rparr>,
                      \<lparr>etype = ''dir'', ename = ''components'', epath = ''src/components''\<rparr>]
         else if u = Contents ''acme'' ''ui'' ''src/components''
         then dir_ok [\<lparr>etype = ''file'', ename = ''Button.tsx'',
                        epath = ''src/components/Button.tsx''\<rparr>,
                      \<lparr>etype = ''file'', ename = ''Button.test.tsx'',
                        epath = ''src/components/Button.test.tsx''\<rparr>]
         else if u = Contents ''acme'' ''ui'' ''src%2Fcomponents%2FButton.test.tsx''
         then file_ok ''import { render } from '@testing-library/react';''
         else not_found),
      base64 = (\<lambda>s. s),
      JSON_parse = (\<lambda>s. if s = ''pkg'' then Some scan_pkg else None),
      toLowerCase = map ascii_lower\<rparr>"

text \<open>
  A repository with the same package.json and no src directory, whose only test is
  __tests__/App.spec.ts, written with enzyme.
\<close>

definition enzyme_repo :: env where
  "enzyme_repo =
     \<lparr>api = (\<lambda>u.
         if u = Contents ''acme'' ''legacy'' ''package.json'' then file_ok ''pkg''
         else if u = Contents ''acme'' ''legacy'' ''__tests__''
         then dir_ok [\<lparr>etype = ''file'', ename = ''App.spec.ts'',
                        epath = ''__tests__/App.spec.ts''\<rparr>]
         else if u = Contents ''acme'' ''legacy'' ''__tests__%2FApp.spec.ts''
         then file_ok ''import { shallow } from 'enzyme';''
         else not_found),
      base64 = (\<lambda>s. s),
      JSON_parse = (\<lambda>s. if s = ''pkg'' then Some scan_pkg else None),
      toLowerCase = map ascii_lower\<rparr>"

text \<open>
  A TypeScript repository with react and @testing-library/react in package.json but no
  Jest anywhere, and the search hits for the two sample repositories.
\<close>

definition rtl_pkg :: json where
  "rtl_pkg =
     JObj [(''dependencies'', JObj [(''react'', JStr ''^18.0.0'')]),
           (''devDependencies'', JObj [(''@testing-library/react'', JStr ''^14.0.0'')])]"

definition rtl_repo :: env where
  "rtl_repo =
     \<lparr>api = (\<lambda>u. if u = Languages ''acme'' ''forms''
                 then Ok \<lparr>status = 200, data = Some (LanguagesObj [(''TypeScript'', 7300)])\<rparr>
                 else if u = Contents ''acme'' ''forms'' ''package.json'' then file_ok ''pkg''
                 else not_found),
      base64 = (\<lambda>s. s),
      JSON_parse = (\<lambda>s. if s = ''pkg'' then Some rtl_pkg else None),
      toLowerCase = map ascii_lower\<rparr>"

definition hit_forms :: item where
  "hit_forms = \<lparr>full_name = ''acme/forms'', owner_login = ''acme'', item_name = ''forms'',
                description = Some ''Form widgets'', stargazers_count = 64\<rparr>"

definition hit_ui :: item where
  "hit_ui = \<lparr>full_name = ''acme/ui'', owner_login = ''acme'', item_name = ''ui'',
             description = None, stargazers_count = 120\<rparr>"

text \<open>A search hit for the repository of \<open>manifest_down\<close>.\<close>

definition hit_shop :: item where
  "hit_shop = \<lparr>full_name = ''acme/shop'', owner_login = ''acme'', item_name = ''shop'',
               description = None, stargazers_count = 7\<rparr>"

definition never :: "nat \<Rightarrow> bool" where
  "never k = False"

text \<open>
  A search API that reports 5000 matches for every query and serves the two sample hits on
  every page, in one order on page 1 and in the other on later pages; the repositories
  are those of \<open>scan_repo\<close>.
\<close>

definition catalog :: env where
  "catalog =
     scan_repo\<lparr>api := (\<lambda>u. case u of
        SearchRepositories q b p \<Rightarrow>
          Ok \<lparr>status = 200,
              data = Some (SearchObj 5000 (if p = 1 then [hit_ui, hit_forms]
                                           else [hit_forms, hit_ui]))\<rparr>
      | _ \<Rightarrow> api scan_repo u)\<rparr>"

text \<open>Pages of 500 hits, and the same with a cap of two analysed repositories.\<close>

definition config_500 :: config where
  "config_500 = default_config\<lparr>BATCH_SIZE := Some 500\<rparr>"

definition config_cap2 :: config where
  "config_cap2 = default_config\<lparr>BATCH_SIZE := Some 500, MAX_ANALYZED := Some 2\<rparr>"

text \<open>An API on which every call fails, for examples that make no use of it.\<close>

definition offline :: env where
  "offline =
     \<lparr>api = (\<lambda>u. Throw FetchFailed), base64 = (\<lambda>s. s), JSON_parse = (\<lambda>s. None),
      toLowerCase = map ascii_lower\<rparr>"

text \<open>A server that answers 404, and an API on which nothing exists.\<close>

definition missing :: "nat \<Rightarrow> nat \<times> fetched" where
  "missing k =
     (40, Response \<lparr>res_status = 404, remaining = Some ''4998'', reset = Some ''1700003600'',
                    body = None\<rparr>)"

definition empty_repo :: env where
  "empty_repo =
     \<lparr>api = (\<lambda>u. not_found), base64 = (\<lambda>s. s), JSON_parse = (\<lambda>s. None),
      toLowerCase = map ascii_lower\<rparr>"

section \<open>Properties of the noise filter\<close>

lemma str_includes_iff: "str_includes h n = (\<exists>p s. h = p @ n @ s)"
proof (induction h)
  case Nil
  then show ?case by auto
next
  case (Cons c cs)
  show ?case
  proof
    assume "str_includes (c # cs) n"
    then consider "prefix n (c # cs)" | "str_includes cs n" by auto
    then show "\<exists>p s. c # cs = p @ n @ s"
    proof cases
      case 1
      then obtain s where "c # cs = n @ s" by (auto simp: prefix_def)
      then have "c # cs = [] @ n @ s" by simp
      then show ?thesis by blast
    next
      case 2
      with Cons obtain p s where "cs = p @ n @ s" by blast
      then have "c # cs = (c # p) @ n @ s" by simp
      then show ?thesis by blast
    qed
  next
    assume "\<exists>p s. c # cs = p @ n @ s"
    then obtain p s where ps: "c # cs = p @ n @ s" by blast
    show "str_includes (c # cs) n"
    proof (cases p)
      case Nil
      with ps have "prefix n (c # cs)" by (metis append_Nil prefixI)
      then show ?thesis by simp
    next
      case (Cons a p')
      with ps have "cs = p' @ n @ s" by simp
      with Cons.IH show ?thesis by auto
    qed
  qed
qed

lemma str_includes_sublist: "str_includes h n = sublist n h"
  by (simp add: str_includes_iff sublist_def)

lemma join_spaced: "join '' '' ts = spaced ts"
  by (induction "'' ''" ts rule: join.induct) (simp_all add: spaced_def)

lemma textIncludesAny_append:
  "textIncludesAny e h (a @ b) = (textIncludesAny e h a \<or> textIncludesAny e h b)"
  by (auto simp: textIncludesAny_def Let_def list_ex_iff)

lemma textIncludesAny_sublist:
  "textIncludesAny e (Some t) ks = (\<exists>k\<in>set ks. sublist k (toLowerCase e t))"
  by (simp add: textIncludesAny_def list_ex_iff str_includes_sublist)

text \<open>Some keyword of the configuration occurs in one of the three texts the code builds.\<close>

lemma classify_match:
  assumes "\<exists>k\<in>set (noise_keywords cfg).
      sublist k (toLowerCase e (toLowerCase e (or_empty name))) \<or>
      sublist k (toLowerCase e (toLowerCase e (or_empty descr))) \<or>
      sublist k (toLowerCase e (spaced (map (toLowerCase e) tps)))"
  shows "detectCourseOrBoilerplate cfg e owner repo name descr tps = (Ok True, [])"
proof -
  let ?c = "COURSE_KEYWORDS_DEFAULT @ EXTRA_COURSE_KEYWORDS cfg"
  let ?b = "BOILERPLATE_KEYWORDS_DEFAULT @ EXTRA_BOILERPLATE_KEYWORDS cfg"
  let ?n = "toLowerCase e (or_empty name)"
  let ?d = "toLowerCase e (or_empty descr)"
  let ?t = "join '' '' (map (toLowerCase e) tps)"
  have "(textIncludesAny e (Some ?n) ?c \<or> textIncludesAny e (Some ?d) ?c \<or>
         textIncludesAny e (Some ?t) ?c) \<or>
        (textIncludesAny e (Some ?n) ?b \<or> textIncludesAny e (Some ?d) ?b \<or>
         textIncludesAny e (Some ?t) ?b)"
    using assms unfolding textIncludesAny_sublist join_spaced noise_keywords_def
    by auto
  then show ?thesis
    unfolding detectCourseOrBoilerplate_def Let_def or_empty_def
    by (auto simp: ret_def)
qed

lemma classify_shallow:
  assumes "\<not> README_COURSE_CHECK cfg"
  shows "detectCourseOrBoilerplate cfg e owner repo name descr tps =
    (Ok (\<exists>k\<in>set (noise_keywords cfg).
           sublist k (toLowerCase e (toLowerCase e (or_empty name))) \<or>
           sublist k (toLowerCase e (toLowerCase e (or_empty descr))) \<or>
           sublist k (toLowerCase e (spaced (map (toLowerCase e) tps)))), [])"
  using assms
  unfolding detectCourseOrBoilerplate_def Let_def noise_keywords_def or_empty_def
  by (auto simp: ret_def textIncludesAny_append textIncludesAny_sublist join_spaced)

text \<open>ASCII text under a runtime that lower-cases ASCII text.\<close>

lemma ascii_lower_range:
  "map_of (zip ''ABCDEFGHIJKLMNOPQRSTUVWXYZ'' ''abcdefghijklmnopqrstuvwxyz'') c = Some l \<Longrightarrow>
   l \<in> set ''abcdefghijklmnopqrstuvwxyz''"
  by (meson in_set_zipE map_of_SomeD)

lemma ascii_lower_ascii: "(of_char c :: nat) < 128 \<Longrightarrow> (of_char (ascii_lower c) :: nat) < 128"
  unfolding ascii_lower_def
  by (auto split: option.splits dest!: ascii_lower_range)

lemma ascii_lower_idem: "ascii_lower (ascii_lower c) = ascii_lower c"
  unfolding ascii_lower_def by (simp split: if_splits)

lemma ascii_map_lower: "ascii s \<Longrightarrow> ascii (map ascii_lower s)"
  by (simp add: ascii_def list_all_iff ascii_lower_ascii)

lemma lower_twice:
  assumes "lowers_ascii e" "ascii s"
  shows "toLowerCase e (toLowerCase e s) = map ascii_lower s"
proof -
  have 1: "toLowerCase e s = map ascii_lower s"
    using assms by (simp add: lowers_ascii_def)
  have "toLowerCase e (map ascii_lower s) = map ascii_lower (map ascii_lower s)"
    using assms ascii_map_lower by (simp add: lowers_ascii_def)
  with 1 show ?thesis by (simp add: ascii_lower_idem)
qed

lemma ascii_spaced: "\<forall>t\<in>set ts. ascii t \<Longrightarrow> ascii (spaced ts)"
  by (cases ts) (auto simp: spaced_def ascii_def list_all_iff)

lemma map_spaced:
  "f (CHR '' '') = CHR '' '' \<Longrightarrow> map f (spaced ts) = spaced (map (map f) ts)"
  by (cases ts) (simp_all add: spaced_def map_concat comp_def)

lemma ascii_lower_blank: "ascii_lower (CHR '' '') = CHR '' ''"
  by (simp add: ascii_lower_def)

lemma lower_topics:
  assumes "lowers_ascii e" "\<forall>t\<in>set ts. ascii t"
  shows "toLowerCase e (spaced (map (toLowerCase e) ts)) = map ascii_lower (spaced ts)"
proof -
  have 1: "map (toLowerCase e) ts = map (map ascii_lower) ts"
    using assms by (simp add: lowers_ascii_def)
  have 2: "ascii (spaced (map (map ascii_lower) ts))"
    using assms(2) by (intro ascii_spaced) (simp add: ascii_map_lower)
  have "toLowerCase e (spaced (map (map ascii_lower) ts)) =
      map ascii_lower (spaced (map (map ascii_lower) ts))"
    using assms(1) 2 by (simp add: lowers_ascii_def)
  also have "\<dots> = spaced (map (map ascii_lower) (map (map ascii_lower) ts))"
    by (rule map_spaced) (rule ascii_lower_blank)
  also have "\<dots> = spaced (map (map ascii_lower) ts)"
    by (simp add: comp_def ascii_lower_idem)
  also have "\<dots> = map ascii_lower (spaced ts)"
    by (rule map_spaced [symmetric]) (rule ascii_lower_blank)
  finally show ?thesis unfolding 1 .
qed

lemma classify_ascii:
  assumes "lowers_ascii e" "\<not> README_COURSE_CHECK cfg"
    and "ascii (or_empty name)" "ascii (or_empty descr)" "\<forall>t\<in>set tps. ascii t"
  shows "detectCourseOrBoilerplate cfg e owner repo name descr tps =
    (Ok (\<exists>k\<in>set (noise_keywords cfg).
           sublist k (map ascii_lower (or_empty name)) \<or>
           sublist k (map ascii_lower (or_empty descr)) \<or>
           sublist k (map ascii_lower (spaced tps))), [])"
  using classify_shallow [OF assms(2), of e owner repo name descr tps]
    lower_twice [OF assms(1,3)] lower_twice [OF assms(1,4)] lower_topics [OF assms(1,5)]
  by simp

lemma bootcamp_name:
  "ascii ''react-bootcamp-2023'' \<and> ''bootcamp'' \<in> set COURSE_KEYWORDS_DEFAULT \<and>
   sublist ''bootcamp'' (map ascii_lower ''react-bootcamp-2023'')"
  by code_simp

lemma classify_bootcamp:
  assumes "lowers_ascii e"
  shows "detectCourseOrBoilerplate cfg e owner repo (Some ''react-bootcamp-2023'') descr tps =
     (Ok True, [])"
proof (rule classify_match)
  have "toLowerCase e (toLowerCase e (or_empty (Some ''react-bootcamp-2023''))) =
      map ascii_lower ''react-bootcamp-2023''"
    using lower_twice [OF assms, of "''react-bootcamp-2023''"] bootcamp_name
    by (simp add: or_empty_def)
  moreover have "''bootcamp'' \<in> set (noise_keywords cfg)"
    using bootcamp_name by (simp add: noise_keywords_def)
  ultimately show "\<exists>k\<in>set (noise_keywords cfg).
      sublist k (toLowerCase e (toLowerCase e (or_empty (Some ''react-bootcamp-2023'')))) \<or>
      sublist k (toLowerCase e (toLowerCase e (or_empty descr))) \<or>
      sublist k (toLowerCase e (spaced (map (toLowerCase e) tps)))"
    using bootcamp_name by metis
qed

lemma acme_name:
  "ascii ''acme-dashboard'' \<and>
   (\<forall>k\<in>set (COURSE_KEYWORDS_DEFAULT @ BOILERPLATE_KEYWORDS_DEFAULT).
      \<not> sublist k (map ascii_lower ''acme-dashboard''))"
  by code_simp

lemma classify_acme:
  assumes "lowers_ascii e" "\<not> README_COURSE_CHECK cfg"
    and "EXTRA_COURSE_KEYWORDS cfg = []" and "EXTRA_BOILERPLATE_KEYWORDS cfg = []"
    and "\<forall>k\<in>set (COURSE_KEYWORDS_DEFAULT @ BOILERPLATE_KEYWORDS_DEFAULT).
           \<not> sublist k (toLowerCase e (toLowerCase e (or_empty descr))) \<and>
           \<not> sublist k (toLowerCase e (spaced (map (toLowerCase e) tps)))"
  shows "detectCourseOrBoilerplate cfg e owner repo (Some ''acme-dashboard'') descr tps =
     (Ok False, [])"
proof -
  have k: "set (noise_keywords cfg) = set (COURSE_KEYWORDS_DEFAULT @ BOILERPLATE_KEYWORDS_DEFAULT)"
    using assms(3,4) by (simp add: noise_keywords_def)
  have n: "toLowerCase e (toLowerCase e (or_empty (Some ''acme-dashboard''))) =
      map ascii_lower ''acme-dashboard''"
    using lower_twice [OF assms(1), of "''acme-dashboard''"] acme_name
    by (simp add: or_empty_def)
  show ?thesis
    unfolding classify_shallow [OF assms(2)] k n
    using acme_name assms(5) by auto
qed

text \<open>
  C8. The classifier is a substring test of the default keyword lists and the extra ones
  against the lower-cased name, the lower-cased description and the lower-cased topics
  joined by a blank. A keyword that occurs in one of the three makes the repository
  noise, without a request. With the README check disabled the classifier makes no
  request and answers whether some keyword occurs in one of the three; on ASCII texts,
  under a runtime that lower-cases ASCII text, that is whether some keyword occurs in
  the name, the description or the joined topics once their letters A..Z are read as
  a..z. Under such a runtime a repository named react-bootcamp-2023 is noise whatever
  the description, the topics and the configuration; and with the README check disabled
  and no extra keywords, a repository named acme-dashboard in whose lower-cased
  description and lower-cased joined topics no default keyword occurs is not noise.
\<close>

theorem noise_classifier_keywords:
  "((\<exists>k\<in>set (noise_keywords cfg).
       sublist k (toLowerCase e (toLowerCase e (or_empty name))) \<or>
       sublist k (toLowerCase e (toLowerCase e (or_empty descr))) \<or>
       sublist k (toLowerCase e (spaced (map (toLowerCase e) tps)))) \<longrightarrow>
      detectCourseOrBoilerplate cfg e owner repo name descr tps = (Ok True, [])) \<and>
   (\<not> README_COURSE_CHECK cfg \<longrightarrow>
      detectCourseOrBoilerplate cfg e owner repo name descr tps =
        (Ok (\<exists>k\<in>set (noise_keywords cfg).
               sublist k (toLowerCase e (toLowerCase e (or_empty name))) \<or>
               sublist k (toLowerCase e (toLowerCase e (or_empty descr))) \<or>
               sublist k (toLowerCase e (spaced (map (toLowerCase e) tps)))), [])) \<and>
   (lowers_ascii e \<and> \<not> README_COURSE_CHECK cfg \<and>
    ascii (or_empty name) \<and> ascii (or_empty descr) \<and> (\<forall>t\<in>set tps. ascii t) \<longrightarrow>
      detectCourseOrBoilerplate cfg e owner repo name descr tps =
        (Ok (\<exists>k\<in>set (noise_keywords cfg).
               sublist k (map ascii_lower (or_empty name)) \<or>
               sublist k (map ascii_lower (or_empty descr)) \<or>
               sublist k (map ascii_lower (spaced tps))), [])) \<and>
   (lowers_ascii e \<longrightarrow>
      detectCourseOrBoilerplate cfg e owner repo (Some ''react-bootcamp-2023'') descr tps =
        (Ok True, [])) \<and>
   (lowers_ascii e \<and> \<not> README_COURSE_CHECK cfg \<and>
    EXTRA_COURSE_KEYWORDS cfg = [] \<and> EXTRA_BOILERPLATE_KEYWORDS cfg = [] \<and>
    (\<forall>k\<in>set (COURSE_KEYWORDS_DEFAULT @ BOILERPLATE_KEYWORDS_DEFAULT).
       \<not> sublist k (toLowerCase e (toLowerCase e (or_empty descr))) \<and>
       \<not> sublist k (toLowerCase e (spaced (map (toLowerCase e) tps)))) \<longrightarrow>
      detectCourseOrBoilerplate cfg e owner repo (Some ''acme-dashboard'') descr tps =
        (Ok False, []))"
  using classify_match [of cfg e name descr tps owner repo]
    classify_shallow [of cfg e owner repo name descr tps]
    classify_ascii [of e cfg name descr tps owner repo]
    classify_bootcamp [of e cfg owner repo descr tps]
    classify_acme [of e cfg descr tps owner repo]
  by blast

lemma offline_lowers_ascii: "lowers_ascii offline"
  by (simp add: lowers_ascii_def offline_def)

theorem noise_classifier_keywords_witness:
  "lowers_ascii offline \<and> \<not> README_COURSE_CHECK default_config \<and>
   detectCourseOrBoilerplate default_config offline ''acme'' ''acme-dashboard''
     (Some ''acme-dashboard'') (Some ''Sales Dashboard for the ACME team'')
     [''react'', ''typescript''] = (Ok False, []) \<and>
   detectCourseOrBoilerplate default_config offline ''acme'' ''react-bootcamp-2023''
     (Some ''react-bootcamp-2023'') None [] = (Ok True, []) \<and>
   detectCourseOrBoilerplate default_config offline ''acme'' ''notes''
     (Some ''notes'') (Some ''My UDEMY Notes'') [] = (Ok True, []) \<and>
   detectCourseOrBoilerplate default_config offline ''acme'' ''app''
     (Some ''app'') None [''React'', ''Starter-Kit''] = (Ok True, [])"
proof -
  have h1: "\<not> README_COURSE_CHECK default_config"
    and h2: "EXTRA_COURSE_KEYWORDS default_config = []"
    and h3: "EXTRA_BOILERPLATE_KEYWORDS default_config = []"
    by (simp_all add: default_config_def)
  have lc: "toLowerCase offline = map ascii_lower"
    by (simp add: offline_def)
  have h4: "\<forall>k\<in>set (COURSE_KEYWORDS_DEFAULT @ BOILERPLATE_KEYWORDS_DEFAULT).
       \<not> sublist k (toLowerCase offline (toLowerCase offline
            (or_empty (Some ''Sales Dashboard for the ACME team'')))) \<and>
       \<not> sublist k (toLowerCase offline
            (spaced (map (toLowerCase offline) [''react'', ''typescript''])))"
    unfolding lc by code_simp
  have a1: "ascii (or_empty (Some ''notes'')) \<and> ascii (or_empty (Some ''My UDEMY Notes'')) \<and>
      (\<forall>t\<in>set ([] :: string list). ascii t)"
    by code_simp
  have a2: "\<exists>k\<in>set (noise_keywords default_config).
      sublist k (map ascii_lower (or_empty (Some ''notes''))) \<or>
      sublist k (map ascii_lower (or_empty (Some ''My UDEMY Notes''))) \<or>
      sublist k (map ascii_lower (spaced []))"
    by code_simp
  have b2: "\<exists>k\<in>set (noise_keywords default_config).
      sublist k (toLowerCase offline (toLowerCase offline (or_empty (Some ''app'')))) \<or>
      sublist k (toLowerCase offline (toLowerCase offline (or_empty None))) \<or>
      sublist k (toLowerCase offline
        (spaced (map (toLowerCase offline) [''React'', ''Starter-Kit''])))"
    unfolding lc by code_simp
  note T = noise_classifier_keywords [where cfg = default_config and e = offline]
  have 1: "detectCourseOrBoilerplate default_config offline ''acme'' ''acme-dashboard''
     (Some ''acme-dashboard'') (Some ''Sales Dashboard for the ACME team'')
     [''react'', ''typescript''] = (Ok False, [])"
    using T [where descr = "Some ''Sales Dashboard for the ACME team''"
        and tps = "[''react'', ''typescript'']" and owner = "''acme''"
        and repo = "''acme-dashboard''"]
      offline_lowers_ascii h1 h2 h3 h4
    by blast
  have 2: "detectCourseOrBoilerplate default_config offline ''acme'' ''react-bootcamp-2023''
     (Some ''react-bootcamp-2023'') None [] = (Ok True, [])"
    using T [where descr = None and tps = "[]" and owner = "''acme''"
        and repo = "''react-bootcamp-2023''"] offline_lowers_ascii
    by blast
  have "detectCourseOrBoilerplate default_config offline ''acme'' ''notes''
     (Some ''notes'') (Some ''My UDEMY Notes'') [] =
     (Ok (\<exists>k\<in>set (noise_keywords default_config).
        sublist k (map ascii_lower (or_empty (Some ''notes''))) \<or>
        sublist k (map ascii_lower (or_empty (Some ''My UDEMY Notes''))) \<or>
        sublist k (map ascii_lower (spaced []))), [])"
    using T [where name = "Some ''notes''" and descr = "Some ''My UDEMY Notes''"
        and tps = "[]" and owner = "''acme''" and repo = "''notes''"]
      offline_lowers_ascii h1 a1
    by blast
  then have 3: "detectCourseOrBoilerplate default_config offline ''acme'' ''notes''
     (Some ''notes'') (Some ''My UDEMY Notes'') [] = (Ok True, [])"
    using a2 by (simp only: simp_thms)
  have 4: "detectCourseOrBoilerplate default_config offline ''acme'' ''app''
     (Some ''app'') None [''React'', ''Starter-Kit''] = (Ok True, [])"
    using T [where name = "Some ''app''" and descr = None
        and tps = "[''React'', ''Starter-Kit'']" and owner = "''acme''" and repo = "''app''"]
      b2
    by blast
  from 1 2 3 4 offline_lowers_ascii h1 show ?thesis by blast
qed

section \<open>Properties of the HTTP client\<close>

lemma to_double_exact: "\<bar>n\<bar> < 2 ^ 53 \<Longrightarrow> to_double n = Fin n"
  by (simp add: to_double_def)

lemma handleRateLimit_retry:
  "(handleRateLimit now res \<noteq> Proceed) = rate_limited res"
  by (auto simp: handleRateLimit_def rate_limited_def Let_def split: option.splits)

text \<open>
  A reset header that reads as second \<open>r\<close>, with the wait within the range of the timer
  and the numbers within the exact range of a double.
\<close>

lemma handleRateLimit_wait:
  assumes "res_status res = 403" "remaining res = Some ''0''" "reset res = Some h" "h \<noteq> []"
    and "parseInt h = Fin r" "\<bar>r * 1000\<bar> < 2 ^ 53" "\<bar>r * 1000 - now\<bar> < 2 ^ 53"
    and "max 0 (r * 1000 - now) + 5000 \<le> 2147483647"
  shows "handleRateLimit now res = RetryAfter (Fin (max 0 (r * 1000 - now) + 5000))"
    and "sleep (Fin (max 0 (r * 1000 - now) + 5000)) = max 0 (r * 1000 - now) + 5000"
proof -
  have "\<bar>max 0 (r * 1000 - now) + 5000\<bar> < 2 ^ 53"
    using assms(8) by simp
  then show "handleRateLimit now res = RetryAfter (Fin (max 0 (r * 1000 - now) + 5000))"
    using assms(1-7)
    by (simp add: handleRateLimit_def Let_def arith_def max0_def to_double_exact)
  show "sleep (Fin (max 0 (r * 1000 - now) + 5000)) = max 0 (r * 1000 - now) + 5000"
    using assms(8) by (simp add: sleep_def)
qed

lemma ghGET_waits_for_reset:
  assumes "srv k = (lat, Response res)"
    and "res_status res = 403" "remaining res = Some ''0''" "reset res = Some h" "h \<noteq> []"
    and "parseInt h = Fin r" "\<bar>r * 1000\<bar> < 2 ^ 53" "\<bar>r * 1000 - (t + int lat)\<bar> < 2 ^ 53"
    and "max 0 (r * 1000 - (t + int lat)) + 5000 \<le> 2147483647"
  shows "\<exists>t'. t' = t + int lat + (max 0 (r * 1000 - (t + int lat)) + 5000) \<and>
      r * 1000 + 5000 \<le> t' \<and>
      ghGET (Suc n) srv k t = (fst (ghGET n srv (Suc k) t'), t # snd (ghGET n srv (Suc k) t'))"
  using assms(1,2) handleRateLimit_wait [OF assms(2-9)]
  by (simp split: prod.splits)

lemma ghGET_no_retry:
  assumes "srv k = (lat, Response res)" "\<not> rate_limited res"
  shows "ghGET (Suc n) srv k t =
     ((if res_status res = 404 then Ok \<lparr>status = 404, data = None\<rparr>
       else if \<not> ok res then Throw (HttpError (res_status res))
       else Ok \<lparr>status = res_status res, data = body res\<rparr>), [t])"
  using assms handleRateLimit_retry [of "t + int lat" res]
  by simp

lemma ghGET_forbidden:
  assumes "srv k = (lat, Response res)" "res_status res = 403" "\<not> rate_limited res"
  shows "ghGET (Suc n) srv k t = (Throw (HttpError 403), [t])"
  using ghGET_no_retry [of srv k lat res n t] assms by (simp add: ok_def)

lemma ghGET_keeps_retrying:
  "(\<forall>j<m. \<exists>lat res. srv (k + j) = (lat, Response res) \<and> rate_limited res) \<Longrightarrow>
   fst (ghGET m srv k t) = NoReturn \<and> length (snd (ghGET m srv k t)) = m"
proof (induction m arbitrary: k t)
  case 0
  then show ?case by simp
next
  case (Suc m)
  from Suc.prems obtain lat res where r: "srv k = (lat, Response res)" "rate_limited res"
    by (metis add.right_neutral zero_less_Suc)
  then obtain w where w: "handleRateLimit (t + int lat) res = RetryAfter w"
    using handleRateLimit_retry [of "t + int lat" res]
    by (cases "handleRateLimit (t + int lat) res") auto
  have "\<forall>j<m. \<exists>lat res. srv (Suc k + j) = (lat, Response res) \<and> rate_limited res"
    using Suc.prems by (metis Suc_less_eq add_Suc_right add_Suc)
  from Suc.IH [OF this, of "t + int lat + sleep w"] r w show ?case
    by (cases "ghGET m srv (Suc k) (t + int lat + sleep w)") (simp add: rate_limited_def)
qed

lemma parseInt_samples:
  "parseInt ''1700000000'' = Fin 1700000000 \<and> parseInt ''1702592000'' = Fin 1702592000 \<and>
   parseInt ''Wed, 21 Oct 2026 07:28:00 GMT'' = NaN \<and> parseInt ''soon'' = NaN \<and>
   parseInt '' +42abc'' = Fin 42 \<and> parseInt ''-7'' = Fin (- 7) \<and>
   parseInt ''9007199254740993'' = Fin 9007199254740992"
  by code_simp

lemma ghGET_near_reset:
  "ghGET 2 throttled_once 0 1699999990000 =
     (Ok \<lparr>status = 200, data = Some (TopicsObj [''react''])\<rparr>, [1699999990000, 1700000005000])"
  by code_simp

text \<open>
  C5. The retried request can be issued before the reset time. Against a 403 answer with
  remaining "0" that arrives at clock reading 1700000000120 and names the reset second
  1702592000, thirty days ahead, \<open>handleRateLimit\<close> computes a wait of 2592004880
  milliseconds, which is above \<open>2^31 - 1\<close>: the timer fires after one millisecond and
  \<open>ghGET\<close> issues the request again at 1700000000121, before the reset time
  1702592000000. A reset header that is not a number (an HTTP date) gives the wait
  \<open>NaN\<close> and the same retry after one millisecond; when every answer is like that,
  \<open>ghGET\<close> repeats the request every 121 milliseconds. (For a reset header that names a
  second within the range of the timer the wait is \<open>max(0, r * 1000 - now) + 5000\<close> and
  the retry is issued 5 seconds or more after the reset time, see \<open>ghGET_waits_for_reset\<close>.)
\<close>

theorem rate_limit_retry_before_reset:
  "throttled_far 0 = (120, Response (quota_exhausted ''1702592000'')) \<and>
   rate_limited (quota_exhausted ''1702592000'') \<and>
   handleRateLimit 1700000000120 (quota_exhausted ''1702592000'') =
     RetryAfter (Fin 2592004880) \<and>
   sleep (Fin 2592004880) = 1 \<and>
   ghGET 2 throttled_far 0 1700000000000 =
     (Ok \<lparr>status = 200, data = Some (TopicsObj [''react''])\<rparr>, [1700000000000, 1700000000121]) \<and>
   (1700000000121 :: int) < 1702592000 * 1000 \<and>
   rate_limited (quota_exhausted ''Wed, 21 Oct 2026 07:28:00 GMT'') \<and>
   handleRateLimit 1700000000120 (quota_exhausted ''Wed, 21 Oct 2026 07:28:00 GMT'') =
     RetryAfter NaN \<and>
   sleep NaN = 1 \<and>
   ghGET 2 throttled_dated 0 1700000000000 =
     (Ok \<lparr>status = 200, data = Some (TopicsObj [''react''])\<rparr>, [1700000000000, 1700000000121]) \<and>
   ghGET 4 throttled_for_ever 0 1700000000000 =
     (NoReturn, [1700000000000, 1700000000121, 1700000000242, 1700000000363])"
  by code_simp

lemma getRepoContent_not_found:
  assumes "api e (Contents owner repo (encodeURIComponent p)) = Ok \<lparr>status = 404, data = None\<rparr>"
  shows "getRepoContent e owner repo p = (Ok None, [Contents owner repo (encodeURIComponent p)])"
  using assms
  by (simp add: getRepoContent_def request_def bind_io_def ret_def decode_file_def)

section \<open>Properties of the technology detection\<close>

lemma bind_io_Throw:
  "fst (bind_io m f) = Throw err \<Longrightarrow>
   fst m = Throw err \<or> (\<exists>x. fst m = Ok x \<and> fst (f x) = Throw err)"
  by (cases m) (auto simp: bind_io_def split: outcome.splits prod.splits)

lemma catch_io_no_Throw: "fst (catch_io m v) \<noteq> Throw err"
  by (cases m) (auto simp: catch_io_def split: outcome.splits)

lemma ret_no_Throw: "fst (ret x) \<noteq> Throw err"
  by (simp add: ret_def)

lemma getRepoContent_Throw:
  "fst (getRepoContent e owner repo p) = Throw err \<Longrightarrow>
   api e (Contents owner repo (encodeURIComponent p)) = Throw err"
  by (auto simp: getRepoContent_def request_def ret_def dest!: bind_io_Throw)

lemma getRepoContent_ThrowD:
  "getRepoContent e owner repo p = (Throw err, l) \<Longrightarrow>
   api e (Contents owner repo (encodeURIComponent p)) = Throw err"
  using getRepoContent_Throw [of e owner repo p err] by simp

lemma after_fst: "fst (after l m) = fst m"
  by (simp add: after_def)

lemma firstPresent_Throw:
  "fst (firstPresent e owner repo files) = Throw err \<Longrightarrow>
   \<exists>f\<in>set files. api e (Contents owner repo (encodeURIComponent f)) = Throw err"
proof (induction files)
  case Nil
  then show ?case by simp
next
  case (Cons f0 files)
  then show ?case
    by (cases "getRepoContent e owner repo f0")
       (auto simp: after_fst split: outcome.splits if_splits dest: getRepoContent_ThrowD)
qed

lemma tsconfigPresent_Throw:
  "fst (tsconfigPresent e owner repo) = Throw err \<Longrightarrow>
   api e (Contents owner repo (encodeURIComponent ''tsconfig.json'')) = Throw err \<or>
   api e (Contents owner repo (encodeURIComponent ''tsconfig.base.json'')) = Throw err"
  unfolding tsconfigPresent_def
  by (auto simp: ret_def dest!: bind_io_Throw getRepoContent_Throw split: if_splits)

lemma fetched_files_eq:
  "fetched_files = [''package.json'', ''tsconfig.json'', ''tsconfig.base.json''] @ jestConfigs"
  by (simp add: fetched_files_def jestConfigs_def)

lemma detectLayers_Throw:
  assumes "fst (detectLayers e owner repo) = Throw err"
  shows "\<exists>f\<in>set fetched_files. api e (Contents owner repo (encodeURIComponent f)) = Throw err"
  using assms unfolding detectLayers_def Let_def fetched_files_eq
  by (auto simp: ret_def catch_io_no_Throw
      dest!: bind_io_Throw getRepoContent_Throw tsconfigPresent_Throw firstPresent_Throw
      split: if_splits)

lemma detectTech_Throw:
  assumes "fst (detectTech n e owner repo) = Throw err"
  shows "\<exists>f\<in>set fetched_files. api e (Contents owner repo (encodeURIComponent f)) = Throw err"
  using assms unfolding detectTech_def Let_def
  by (auto simp: ret_def catch_io_no_Throw dest!: bind_io_Throw detectLayers_Throw split: if_splits)

lemma detectTech_basic_Throw:
  assumes "fst (detectTech_basic e owner repo) = Throw err"
  shows "\<exists>f\<in>set fetched_files. api e (Contents owner repo (encodeURIComponent f)) = Throw err"
  using assms unfolding detectTech_basic_def Let_def fetched_files_eq
  by (auto simp: ret_def catch_io_no_Throw
      dest!: bind_io_Throw getRepoContent_Throw tsconfigPresent_Throw firstPresent_Throw
      split: if_splits)

lemma after_snd: "snd (after l m) = l @ snd m" by (simp add: after_def)
lemma request_eq: "request e u = (api e u, [u])" by (simp add: request_def)

lemma bind_io_fst_Ok:
  "(fst (bind_io m f) = Ok y) = (\<exists>x. fst m = Ok x \<and> fst (f x) = Ok y)"
  by (cases m) (auto simp: bind_io_def split: outcome.splits prod.splits)

lemma bind_io_fst_NoReturn:
  "(fst (bind_io m f) = NoReturn) = (fst m = NoReturn \<or> (\<exists>x. fst m = Ok x \<and> fst (f x) = NoReturn))"
  by (cases m) (auto simp: bind_io_def split: outcome.splits prod.splits)

lemma bind_io_snd:
  "snd (bind_io m f) = (case fst m of Ok x \<Rightarrow> snd m @ snd (f x) | _ \<Rightarrow> snd m)"
  by (cases m) (auto simp: bind_io_def split: outcome.splits prod.splits)


lemma bind_io_Ok:
  "m = (Ok x, l) \<Longrightarrow> bind_io m f = after l (f x)"
  by (simp add: bind_io_def after_def split: prod.splits)

lemma fst_bind_io_Ok:
  "fst (bind_io m f) = Ok y \<Longrightarrow> \<exists>x. fst m = Ok x \<and> fst (f x) = Ok y"
  by (cases m) (auto simp: bind_io_def split: outcome.splits prod.splits)

lemma getRepoContent_eq:
  "getRepoContent e owner repo p =
     (case api e (Contents owner repo (encodeURIComponent p)) of
        Ok r \<Rightarrow> Ok (decode_file e r) | Throw err \<Rightarrow> Throw err | NoReturn \<Rightarrow> NoReturn,
      [Contents owner repo (encodeURIComponent p)])"
  by (simp add: getRepoContent_def request_def bind_io_def ret_def split: outcome.splits)

lemma bind_io_requests:
  "set (snd m) \<subseteq> S \<Longrightarrow> (\<And>x. set (snd (f x)) \<subseteq> S) \<Longrightarrow> set (snd (bind_io m f)) \<subseteq> S"
proof (cases m)
  case (Pair a l)
  assume m: "set (snd m) \<subseteq> S" and f: "\<And>x. set (snd (f x)) \<subseteq> S"
  show ?thesis
  proof (cases a)
    case (Ok x)
    with Pair m f [of x] show ?thesis
      by (cases "f x") (auto simp: bind_io_def)
  qed (use Pair m in \<open>auto simp: bind_io_def\<close>)
qed

lemma catch_io_snd: "snd (catch_io m v) = snd m"
  by (cases m) (auto simp: catch_io_def split: outcome.splits)

lemma ret_snd: "snd (ret x) = []" by (simp add: ret_def)

lemma getRepoContent_snd:
  "snd (getRepoContent e owner repo p) = [Contents owner repo (encodeURIComponent p)]"
  by (simp add: getRepoContent_eq)

lemma firstPresent_requests:
  "set (snd (firstPresent e owner repo files)) \<subseteq>
     (\<lambda>f. Contents owner repo (encodeURIComponent f)) ` set files"
proof (induction files)
  case Nil
  then show ?case by simp
next
  case (Cons f0 files)
  then show ?case
    by (cases "getRepoContent e owner repo f0")
       (use getRepoContent_snd [of e owner repo f0] in
         \<open>auto simp: after_snd split: outcome.splits\<close>)
qed

lemma tsconfigPresent_requests:
  "set (snd (tsconfigPresent e owner repo)) \<subseteq>
     (\<lambda>f. Contents owner repo (encodeURIComponent f)) ` set fetched_files"
  unfolding tsconfigPresent_def
  by (auto simp: bind_io_snd getRepoContent_snd ret_snd fetched_files_def
      split: outcome.splits if_splits)

lemma getRepoLanguages_snd: "snd (getRepoLanguages e owner repo) = [Languages owner repo]"
  by (cases "api e (Languages owner repo)")
     (simp_all add: getRepoLanguages_def bind_io_def request_eq ret_def)

lemma getRepoTopics_snd: "snd (getRepoTopics e owner repo) = [Topics owner repo]"
  by (cases "api e (Topics owner repo)")
     (simp_all add: getRepoTopics_def bind_io_def request_eq ret_def)

lemma detectLayers_requests:
  "set (snd (detectLayers e owner repo)) \<subseteq>
     {Languages owner repo, Topics owner repo} \<union>
     (\<lambda>f. Contents owner repo (encodeURIComponent f)) ` set fetched_files"
  (is "_ \<subseteq> ?S")
proof -
  have t: "set (snd (tsconfigPresent e owner repo)) \<subseteq> ?S"
    using tsconfigPresent_requests [of e owner repo] by blast
  have j: "set (snd (firstPresent e owner repo jestConfigs)) \<subseteq> ?S"
    using firstPresent_requests [of e owner repo jestConfigs] by (auto simp: fetched_files_eq)
  have p: "set (snd (getRepoContent e owner repo ''package.json'')) \<subseteq> ?S"
    by (simp add: getRepoContent_snd fetched_files_def)
  show ?thesis
    unfolding detectLayers_def Let_def
    by (intro bind_io_requests)
       (use t j p in \<open>auto simp: catch_io_snd getRepoLanguages_snd getRepoTopics_snd ret_snd\<close>)
qed

lemma src_not_fetched: "''src'' \<notin> encodeURIComponent ` set fetched_files"
  by code_simp

lemma detectLayers_no_src:
  "Contents owner repo ''src'' \<notin> set (snd (detectLayers e owner repo))"
  using detectLayers_requests [of e owner repo] src_not_fetched by auto

text \<open>The reads of the code, put in terms of what the API holds.\<close>

lemma fst_bind_io:
  "fst (bind_io m f) =
     (case fst m of Ok x \<Rightarrow> fst (f x) | Throw err \<Rightarrow> Throw err | NoReturn \<Rightarrow> NoReturn)"
  by (cases m) (auto simp: bind_io_def split: outcome.splits prod.splits)

lemma fst_catch_io:
  "fst (catch_io m v) = (case fst m of Throw err \<Rightarrow> Ok v | r \<Rightarrow> r)"
  by (cases m) (auto simp: catch_io_def split: outcome.splits)

lemma fst_getRepoContent:
  "fst (getRepoContent e owner repo p) =
     (case api e (Contents owner repo (encodeURIComponent p)) of
        Ok r \<Rightarrow> Ok (file_text e owner repo p)
      | Throw err \<Rightarrow> Throw err
      | NoReturn \<Rightarrow> NoReturn)"
  by (auto simp: getRepoContent_eq file_text_def decode_file_def
      split: outcome.splits option.splits payload.splits)

lemma present_file_text: "present (file_text e owner repo p) = has_text e owner repo p"
  by (simp add: present_def has_text_def)

lemma manifest_file_text:
  "manifest e (file_text e owner repo ''package.json'') = package_json e owner repo"
  by (simp add: manifest_def package_json_def)

lemma languages_TS:
  "fst (catch_io (getRepoLanguages e owner repo) []) = Ok langs \<Longrightarrow>
   (case map_of langs ''TypeScript'' of None \<Rightarrow> False | Some n \<Rightarrow> 0 < n) =
     languageTS e owner repo"
  by (auto simp: fst_catch_io getRepoLanguages_def fst_bind_io request_eq ret_def languageTS_def
      split: outcome.splits option.splits payload.splits if_splits)

lemma topics_names:
  "fst (catch_io (getRepoTopics e owner repo) []) = Ok tps \<Longrightarrow> tps = topic_names e owner repo"
  by (auto simp: fst_catch_io getRepoTopics_def fst_bind_io request_eq ret_def topic_names_def
      split: outcome.splits option.splits payload.splits if_splits)

lemma pkgHasAnyDep_listed: "pkgHasAnyDep j names = (\<exists>name\<in>set names. listed j name)"
  by (simp add: pkgHasAnyDep_def list_ex_iff hasDep_def listed_def lists_def Let_def)

lemma scriptsContain_mentions: "scriptsContain e j [term] = script_mentions e j term"
  by (simp add: scriptsContain_def script_mentions_def Let_def list_ex_iff str_includes_sublist)

lemma scriptsContain_basic_mentions: "scriptsContain_basic e j term = script_mentions e j term"
  by (simp add: scriptsContain_basic_def script_mentions_def Let_def list_ex_iff
      str_includes_sublist)

lemma firstPresent_Ok:
  "fst (firstPresent e owner repo files) = Ok b \<Longrightarrow>
   b = (\<exists>f\<in>set files. has_text e owner repo f)"
proof (induction files)
  case Nil
  then show ?case by simp
next
  case (Cons f0 files)
  then show ?case
    using fst_getRepoContent [of e owner repo f0]
    by (cases "getRepoContent e owner repo f0")
       (auto simp: after_fst present_file_text split: outcome.splits if_splits)
qed

lemma tsconfigPresent_firstPresent:
  "fst (tsconfigPresent e owner repo) =
   fst (firstPresent e owner repo [''tsconfig.json'', ''tsconfig.base.json''])"
  unfolding tsconfigPresent_def
  by (cases "getRepoContent e owner repo ''tsconfig.json''";
      cases "getRepoContent e owner repo ''tsconfig.base.json''")
     (auto simp: fst_bind_io ret_def after_fst split: outcome.splits)

lemma firstPresent_Throw_iff:
  "\<forall>f\<in>set files. api e (Contents owner repo (encodeURIComponent f)) \<noteq> NoReturn \<Longrightarrow>
   (fst (firstPresent e owner repo files) = Throw err) =
     (first_failure e owner repo files = Some err)"
proof (induction files)
  case Nil
  then show ?case by simp
next
  case (Cons f0 files)
  then show ?case
    using fst_getRepoContent [of e owner repo f0]
    by (cases "getRepoContent e owner repo f0")
       (auto simp: after_fst present_file_text split: outcome.splits if_splits)
qed

lemma firstPresent_returns:
  "\<forall>f\<in>set files. api e (Contents owner repo (encodeURIComponent f)) \<noteq> NoReturn \<Longrightarrow>
   fst (firstPresent e owner repo files) \<noteq> NoReturn"
proof (induction files)
  case Nil
  then show ?case by simp
next
  case (Cons f0 files)
  then show ?case
    using fst_getRepoContent [of e owner repo f0]
    by (cases "getRepoContent e owner repo f0")
       (auto simp: after_fst present_file_text split: outcome.splits if_splits)
qed

lemma jest_in_manifest:
  "(case package_json e owner repo of None \<Rightarrow> False
    | Some j \<Rightarrow> fe_hasJest (detectFrontendFromPkg e j)) = jest_known e owner repo"
  by (auto simp: detectFrontendFromPkg_def Let_def jest_known_def manifest_lists_def
      pkgHasAnyDep_listed scriptsContain_mentions split: option.splits)

lemma typescript_in_manifest:
  "(languageTS e owner repo \<or>
    (case package_json e owner repo of None \<Rightarrow> False
     | Some j \<Rightarrow> pkgHasAnyDep j [''typescript''])) = typescript_known e owner repo"
  by (auto simp: typescript_known_def manifest_lists_def pkgHasAnyDep_listed
      split: option.splits)

lemma react_in_manifest:
  "(case package_json e owner repo of None \<Rightarrow> False
    | Some j \<Rightarrow> pkgHasAnyDep j [''react'', ''react-dom'']) =
   manifest_lists e owner repo [''react'', ''react-dom'']"
  by (auto simp: manifest_lists_def pkgHasAnyDep_listed split: option.splits)

lemma detectLayers_fields:
  assumes "fst (detectLayers e owner repo) = Ok s"
  shows "hasTS s =
      (typescript_known e owner repo \<or> has_text e owner repo ''tsconfig.json'' \<or>
       has_text e owner repo ''tsconfig.base.json'')"
    and "topics s = topic_names e owner repo"
    and "hasReactDeps s = manifest_lists e owner repo [''react'', ''react-dom'']"
    and "hasReact s =
      (manifest_lists e owner repo [''react'', ''react-dom''] \<or>
       ''react'' \<in> toLowerCase e ` set (topic_names e owner repo))"
    and "hasJest s =
      (jest_known e owner repo \<or> (\<exists>f\<in>set jestConfigs. has_text e owner repo f))"
proof -
  from assms obtain langs pkgText tps ts jest where
    l: "fst (catch_io (getRepoLanguages e owner repo) []) = Ok langs"
    and p: "fst (getRepoContent e owner repo ''package.json'') = Ok pkgText"
    and t: "fst (catch_io (getRepoTopics e owner repo) []) = Ok tps"
    and c: "fst (if (case map_of langs ''TypeScript'' of None \<Rightarrow> False | Some n \<Rightarrow> 0 < n) \<or>
                   (case manifest e pkgText of None \<Rightarrow> False
                    | Some j \<Rightarrow> pkgHasAnyDep j [''typescript''])
                then ret True else tsconfigPresent e owner repo) = Ok ts"
    and j: "fst (if (case manifest e pkgText of None \<Rightarrow> False
                    | Some j \<Rightarrow> fe_hasJest (detectFrontendFromPkg e j))
                then ret True else firstPresent e owner repo jestConfigs) = Ok jest"
    and s: "hasTS s = ts" "topics s = tps" "hasJest s = jest"
      "hasReactDeps s = (case manifest e pkgText of None \<Rightarrow> False
                         | Some j \<Rightarrow> pkgHasAnyDep j [''react'', ''react-dom''])"
      "hasReact s = ((case manifest e pkgText of None \<Rightarrow> False
                         | Some j \<Rightarrow> pkgHasAnyDep j [''react'', ''react-dom'']) \<or>
                     ''react'' \<in> set (map (toLowerCase e) tps))"
    unfolding detectLayers_def Let_def
    by (auto simp: bind_io_fst_Ok ret_def)
  from p have m: "manifest e pkgText = package_json e owner repo"
    using manifest_file_text [of e owner repo]
    by (auto simp: fst_getRepoContent split: outcome.splits)
  note ts = languages_TS [OF l]
  note tn = topics_names [OF t]
  show "topics s = topic_names e owner repo" using s tn by simp
  show "hasReactDeps s = manifest_lists e owner repo [''react'', ''react-dom'']"
    using s m react_in_manifest by simp
  show "hasReact s =
      (manifest_lists e owner repo [''react'', ''react-dom''] \<or>
       ''react'' \<in> toLowerCase e ` set (topic_names e owner repo))"
    using s m tn react_in_manifest by simp
  show "hasTS s =
      (typescript_known e owner repo \<or> has_text e owner repo ''tsconfig.json'' \<or>
       has_text e owner repo ''tsconfig.base.json'')"
  proof (cases "typescript_known e owner repo")
    case True
    with c ts m typescript_in_manifest [of e owner repo] s show ?thesis
      by (simp add: ret_def)
  next
    case False
    with c ts m typescript_in_manifest [of e owner repo]
    have "fst (tsconfigPresent e owner repo) = Ok ts" by simp
    then have "ts = (\<exists>f\<in>set [''tsconfig.json'', ''tsconfig.base.json'']. has_text e owner repo f)"
      unfolding tsconfigPresent_firstPresent by (rule firstPresent_Ok)
    with False s show ?thesis by simp
  qed
  show "hasJest s =
      (jest_known e owner repo \<or> (\<exists>f\<in>set jestConfigs. has_text e owner repo f))"
  proof (cases "jest_known e owner repo")
    case True
    with j m jest_in_manifest [of e owner repo] s show ?thesis
      by (simp add: ret_def)
  next
    case False
    with j m jest_in_manifest [of e owner repo]
    have "fst (firstPresent e owner repo jestConfigs) = Ok jest" by simp
    from firstPresent_Ok [OF this] False s show ?thesis by simp
  qed
qed

lemma answers_files:
  assumes "answers e owner repo"
  shows "api e (Languages owner repo) \<noteq> NoReturn" "api e (Topics owner repo) \<noteq> NoReturn"
    "api e (Contents owner repo (encodeURIComponent ''package.json'')) \<noteq> NoReturn"
    "\<forall>f\<in>set [''tsconfig.json'', ''tsconfig.base.json''].
       api e (Contents owner repo (encodeURIComponent f)) \<noteq> NoReturn"
    "\<forall>f\<in>set jestConfigs. api e (Contents owner repo (encodeURIComponent f)) \<noteq> NoReturn"
  using assms by (simp_all add: answers_def fetched_files_def jestConfigs_def)

lemma languages_returns:
  "api e (Languages owner repo) \<noteq> NoReturn \<Longrightarrow>
   \<exists>langs. fst (catch_io (getRepoLanguages e owner repo) []) = Ok langs"
  by (cases "api e (Languages owner repo)")
     (auto simp: fst_catch_io getRepoLanguages_def fst_bind_io request_eq ret_def)

lemma topics_returns:
  "api e (Topics owner repo) \<noteq> NoReturn \<Longrightarrow>
   \<exists>tps. fst (catch_io (getRepoTopics e owner repo) []) = Ok tps"
  by (cases "api e (Topics owner repo)")
     (auto simp: fst_catch_io getRepoTopics_def fst_bind_io request_eq ret_def)

lemma config_steps_Throw:
  assumes "answers e owner repo"
  shows "(\<exists>ts. fst (if typescript_known e owner repo then ret True
                    else tsconfigPresent e owner repo) = Ok ts \<and>
              fst (if jest_known e owner repo then ret True
                   else firstPresent e owner repo jestConfigs) = Throw err \<or>
          fst (if typescript_known e owner repo then ret True
               else tsconfigPresent e owner repo) = Throw err) =
         ((case (if typescript_known e owner repo then None
                 else first_failure e owner repo [''tsconfig.json'', ''tsconfig.base.json'']) of
             Some err' \<Rightarrow> Some err'
           | None \<Rightarrow>
               if jest_known e owner repo then None
               else first_failure e owner repo jestConfigs) = Some err)"
proof -
  note a = answers_files [OF assms]
  have t: "(fst (tsconfigPresent e owner repo) = Throw err') =
      (first_failure e owner repo [''tsconfig.json'', ''tsconfig.base.json''] = Some err')" for err'
    unfolding tsconfigPresent_firstPresent using a(4) by (rule firstPresent_Throw_iff)
  have tn: "fst (tsconfigPresent e owner repo) \<noteq> NoReturn"
    unfolding tsconfigPresent_firstPresent using a(4) by (rule firstPresent_returns)
  have j: "(fst (firstPresent e owner repo jestConfigs) = Throw err') =
      (first_failure e owner repo jestConfigs = Some err')" for err'
    using a(5) by (rule firstPresent_Throw_iff)
  show ?thesis
  proof (cases "fst (if typescript_known e owner repo then ret True
               else tsconfigPresent e owner repo)")
    case (Ok ts)
    then have "(if typescript_known e owner repo then None
                 else first_failure e owner repo [''tsconfig.json'', ''tsconfig.base.json'']) = None"
      using t by (cases "first_failure e owner repo [''tsconfig.json'', ''tsconfig.base.json'']")
        (auto simp del: first_failure.simps split: if_splits)
    with Ok j show ?thesis by (auto simp: ret_def simp del: first_failure.simps)
  next
    case (Throw err')
    then have "(if typescript_known e owner repo then None
                 else first_failure e owner repo [''tsconfig.json'', ''tsconfig.base.json'']) = Some err'"
      using t by (auto simp: ret_def simp del: first_failure.simps split: if_splits)
    with Throw show ?thesis by (auto simp del: first_failure.simps)
  next
    case NoReturn
    with tn show ?thesis by (auto simp: ret_def simp del: first_failure.simps split: if_splits)
  qed
qed

lemma detectLayers_Throw_iff:
  assumes "answers e owner repo"
  shows "(fst (detectLayers e owner repo) = Throw err) = (failure e owner repo = Some err)"
proof -
  note a = answers_files [OF assms]
  from languages_returns [OF a(1)] obtain langs
    where l: "fst (catch_io (getRepoLanguages e owner repo) []) = Ok langs" by blast
  from topics_returns [OF a(2)] obtain tps
    where t: "fst (catch_io (getRepoTopics e owner repo) []) = Ok tps" by blast
  note ts = languages_TS [OF l]
  show ?thesis
  proof (cases "api e (Contents owner repo (encodeURIComponent ''package.json''))")
    case NoReturn
    with a(3) show ?thesis by simp
  next
    case (Throw err')
    then have "fst (getRepoContent e owner repo ''package.json'') = Throw err'"
      by (simp add: fst_getRepoContent)
    with l Throw show ?thesis
      unfolding detectLayers_def Let_def failure_def
      by (simp add: fst_bind_io)
  next
    case (Ok r)
    then have p: "fst (getRepoContent e owner repo ''package.json'') =
        Ok (file_text e owner repo ''package.json'')"
      by (simp add: fst_getRepoContent)
    have "(fst (detectLayers e owner repo) = Throw err) =
        (\<exists>ts. fst (if typescript_known e owner repo then ret True
                    else tsconfigPresent e owner repo) = Ok ts \<and>
              fst (if jest_known e owner repo then ret True
                   else firstPresent e owner repo jestConfigs) = Throw err \<or>
          fst (if typescript_known e owner repo then ret True
               else tsconfigPresent e owner repo) = Throw err)"
      unfolding detectLayers_def Let_def
      using l p t ts typescript_in_manifest [of e owner repo] jest_in_manifest [of e owner repo]
      by (auto simp: fst_bind_io manifest_file_text ret_def split: outcome.splits)
    also have "\<dots> =
        ((case (if typescript_known e owner repo then None
                 else first_failure e owner repo [''tsconfig.json'', ''tsconfig.base.json'']) of
             Some err' \<Rightarrow> Some err'
           | None \<Rightarrow>
               if jest_known e owner repo then None
               else first_failure e owner repo jestConfigs) = Some err)"
      by (rule config_steps_Throw [OF assms])
    also have "\<dots> = (failure e owner repo = Some err)"
      unfolding failure_def jestConfigs_def using Ok
      by (simp del: first_failure.simps)
    finally show ?thesis .
  qed
qed

lemma detectTech_Throw_iff:
  "(fst (detectTech n e owner repo) = Throw err) = (fst (detectLayers e owner repo) = Throw err)"
  unfolding detectTech_def Let_def
  by (auto simp: fst_bind_io fst_catch_io ret_def split: outcome.splits)

lemma detectTech_fields:
  assumes "fst (detectTech n e owner repo) = Ok t"
  shows "\<exists>s. fst (detectLayers e owner repo) = Ok s \<and> hasTS t = hasTS s \<and>
    hasReact t = hasReact s \<and> hasJest t = hasJest s \<and> topics t = topics s \<and>
    hasReactDeps t = hasReactDeps s"
  using assms unfolding detectTech_def Let_def
  by (auto simp: bind_io_fst_Ok ret_def split: if_splits)

lemma detectTech_basic_fields:
  assumes "fst (detectTech_basic e owner repo) = Ok b"
  shows "basic_hasTS b =
      (typescript_known e owner repo \<or> has_text e owner repo ''tsconfig.json'' \<or>
       has_text e owner repo ''tsconfig.base.json'')"
    and "basic_hasReact b =
      (manifest_lists e owner repo [''react'', ''react-dom''] \<or>
       ''react'' \<in> toLowerCase e ` set (topic_names e owner repo))"
    and "basic_hasJest b =
      (jest_known e owner repo \<or> (\<exists>f\<in>set jestConfigs. has_text e owner repo f))"
proof -
  let ?react = "\<lambda>pkgText. case manifest e pkgText of None \<Rightarrow> False
                         | Some j \<Rightarrow> pkgHasAnyDep j [''react'', ''react-dom'']"
  from assms obtain langs pkgText react ts jest where
    l: "fst (catch_io (getRepoLanguages e owner repo) []) = Ok langs"
    and p: "fst (getRepoContent e owner repo ''package.json'') = Ok pkgText"
    and r: "fst (if ?react pkgText then ret True
                else bind_io (catch_io (getRepoTopics e owner repo) []) (\<lambda>tps.
                       ret (''react'' \<in> set (map (toLowerCase e) tps)))) = Ok react"
    and c: "fst (if (case map_of langs ''TypeScript'' of None \<Rightarrow> False | Some n \<Rightarrow> 0 < n) \<or>
                   (case manifest e pkgText of None \<Rightarrow> False
                    | Some j \<Rightarrow> pkgHasAnyDep j [''typescript''])
                then ret True else tsconfigPresent e owner repo) = Ok ts"
    and j: "fst (if (case manifest e pkgText of None \<Rightarrow> False
                    | Some j \<Rightarrow>
                        pkgHasAnyDep j [''jest'', ''@jest/globals'', ''ts-jest'', ''babel-jest''] \<or>
                        scriptsContain_basic e j ''jest'')
                then ret True else firstPresent e owner repo jestConfigs) = Ok jest"
    and s: "basic_hasTS b = ts" "basic_hasReact b = react" "basic_hasJest b = jest"
    unfolding detectTech_basic_def Let_def
    by (auto simp: bind_io_fst_Ok ret_def)
  from p have m: "manifest e pkgText = package_json e owner repo"
    using manifest_file_text [of e owner repo]
    by (auto simp: fst_getRepoContent split: outcome.splits)
  note ts = languages_TS [OF l]
  have jk: "(case package_json e owner repo of None \<Rightarrow> False
      | Some j \<Rightarrow>
          pkgHasAnyDep j [''jest'', ''@jest/globals'', ''ts-jest'', ''babel-jest''] \<or>
          scriptsContain_basic e j ''jest'') = jest_known e owner repo"
    by (auto simp: jest_known_def manifest_lists_def pkgHasAnyDep_listed
        scriptsContain_basic_mentions split: option.splits)
  show "basic_hasReact b =
      (manifest_lists e owner repo [''react'', ''react-dom''] \<or>
       ''react'' \<in> toLowerCase e ` set (topic_names e owner repo))"
  proof (cases "manifest_lists e owner repo [''react'', ''react-dom'']")
    case True
    with r m react_in_manifest [of e owner repo] s show ?thesis by (simp add: ret_def)
  next
    case False
    with r m react_in_manifest [of e owner repo]
    obtain tps where "fst (catch_io (getRepoTopics e owner repo) []) = Ok tps"
      "react = (''react'' \<in> set (map (toLowerCase e) tps))"
      by (auto simp: bind_io_fst_Ok ret_def)
    with topics_names [of e owner repo tps] False s show ?thesis by simp
  qed
  show "basic_hasTS b =
      (typescript_known e owner repo \<or> has_text e owner repo ''tsconfig.json'' \<or>
       has_text e owner repo ''tsconfig.base.json'')"
  proof (cases "typescript_known e owner repo")
    case True
    with c ts m typescript_in_manifest [of e owner repo] s show ?thesis
      by (simp add: ret_def)
  next
    case False
    with c ts m typescript_in_manifest [of e owner repo]
    have "fst (tsconfigPresent e owner repo) = Ok ts" by simp
    then have "ts = (\<exists>f\<in>set [''tsconfig.json'', ''tsconfig.base.json'']. has_text e owner repo f)"
      unfolding tsconfigPresent_firstPresent by (rule firstPresent_Ok)
    with False s show ?thesis by simp
  qed
  show "basic_hasJest b =
      (jest_known e owner repo \<or> (\<exists>f\<in>set jestConfigs. has_text e owner repo f))"
  proof (cases "jest_known e owner repo")
    case True
    with j m jk s show ?thesis by (simp add: ret_def)
  next
    case False
    with j m jk have "fst (firstPresent e owner repo jestConfigs) = Ok jest" by simp
    from firstPresent_Ok [OF this] False s show ?thesis by simp
  qed
qed

lemma detectTech_basic_Throw_iff:
  assumes "answers e owner repo"
  shows "(fst (detectTech_basic e owner repo) = Throw err) = (failure e owner repo = Some err)"
proof -
  note a = answers_files [OF assms]
  from languages_returns [OF a(1)] obtain langs
    where l: "fst (catch_io (getRepoLanguages e owner repo) []) = Ok langs" by blast
  from topics_returns [OF a(2)] obtain tps
    where t: "fst (catch_io (getRepoTopics e owner repo) []) = Ok tps" by blast
  note ts = languages_TS [OF l]
  have jk: "(case package_json e owner repo of None \<Rightarrow> False
      | Some j \<Rightarrow>
          pkgHasAnyDep j [''jest'', ''@jest/globals'', ''ts-jest'', ''babel-jest''] \<or>
          scriptsContain_basic e j ''jest'') = jest_known e owner repo"
    by (auto simp: jest_known_def manifest_lists_def pkgHasAnyDep_listed
        scriptsContain_basic_mentions split: option.splits)
  show ?thesis
  proof (cases "api e (Contents owner repo (encodeURIComponent ''package.json''))")
    case NoReturn
    with a(3) show ?thesis by simp
  next
    case (Throw err')
    then have "fst (getRepoContent e owner repo ''package.json'') = Throw err'"
      by (simp add: fst_getRepoContent)
    with l Throw show ?thesis
      unfolding detectTech_basic_def Let_def failure_def
      by (simp add: fst_bind_io)
  next
    case (Ok r)
    then have p: "fst (getRepoContent e owner repo ''package.json'') =
        Ok (file_text e owner repo ''package.json'')"
      by (simp add: fst_getRepoContent)
    have "(fst (detectTech_basic e owner repo) = Throw err) =
        (\<exists>ts. fst (if typescript_known e owner repo then ret True
                    else tsconfigPresent e owner repo) = Ok ts \<and>
              fst (if jest_known e owner repo then ret True
                   else firstPresent e owner repo jestConfigs) = Throw err \<or>
          fst (if typescript_known e owner repo then ret True
               else tsconfigPresent e owner repo) = Throw err)"
      unfolding detectTech_basic_def Let_def
      using l p t ts typescript_in_manifest [of e owner repo] jk
      by (auto simp: fst_bind_io manifest_file_text ret_def split: outcome.splits)
    also have "\<dots> =
        ((case (if typescript_known e owner repo then None
                 else first_failure e owner repo [''tsconfig.json'', ''tsconfig.base.json'']) of
             Some err' \<Rightarrow> Some err'
           | None \<Rightarrow>
               if jest_known e owner repo then None
               else first_failure e owner repo jestConfigs) = Some err)"
      by (rule config_steps_Throw [OF assms])
    also have "\<dots> = (failure e owner repo = Some err)"
      unfolding failure_def jestConfigs_def using Ok
      by (simp del: first_failure.simps)
    finally show ?thesis .
  qed
qed

text \<open>
  C1 (as stated) fails: when the API answers 500 to the request for package.json, both
  versions of \<open>detectTech\<close> throw.
\<close>

theorem detectTech_raises_counterexample:
  "fst (detectTech 2 manifest_down ''acme'' ''shop'') = Throw (HttpError 500) \<and>
   fst (detectTech_basic manifest_down ''acme'' ''shop'') = Throw (HttpError 500)"
  by code_simp

lemma item_step_catches:
  assumes "\<not> stopping stop st" "full_name it \<notin> set (processed st)"
    "\<not> analysed_cap cfg (Suc (length (processed st)))"
    "fst (detectTech n e (owner_login it) (item_name it)) = Throw err"
  shows "snd (item_step cfg n e stop it st) = Next \<and>
         csv (fst (item_step cfg n e stop it st)) = csv st"
  using assms by (simp add: item_step_def Let_def tick_def)

lemma failure_manifest:
  "api e (Contents owner repo (encodeURIComponent ''package.json'')) = Throw err \<Longrightarrow>
   failure e owner repo = Some err"
  by (simp add: failure_def)

lemma languages_fail:
  "api e (Languages owner repo) = Throw err \<Longrightarrow>
   typescript_known e owner repo = manifest_lists e owner repo [''typescript'']"
  by (simp add: typescript_known_def languageTS_def)

lemma topics_fail: "api e (Topics owner repo) = Throw err \<Longrightarrow> topic_names e owner repo = []"
  by (simp add: topic_names_def)

text \<open>
  C1 (amended). \<open>detectTech\<close> throws only the exception of a fetch of package.json,
  tsconfig.json, tsconfig.base.json or one of the jest.config files, and when the API
  answers it throws exactly then: the exception of the request for package.json;
  otherwise, unless TypeScript is known from the language breakdown or the manifest, that
  of the first tsconfig file whose request fails before one has text; otherwise, unless
  Jest is known from the manifest, that of the first jest.config file whose request fails
  before one has text. An exception while fetching the language breakdown or the topics,
  or anywhere in the source scan, is never passed on: after a failed languages request
  the language signal is what the manifest and the tsconfig files give, after a failed
  topics request there are no topics and the framework signal is what the manifest gives.
  An exception that \<open>detectTech\<close> does throw is caught by the loop over the search hits:
  the repository is left out of the CSV and the loop goes on to the next hit.
\<close>

theorem detectTech_raises_only_file_fetch:
  "(fst (detectTech n e owner repo) = Throw err \<longrightarrow>
      (\<exists>f\<in>set fetched_files.
         api e (Contents owner repo (encodeURIComponent f)) = Throw err)) \<and>
   (fst (detectTech_basic e owner repo) = Throw err \<longrightarrow>
      (\<exists>f\<in>set fetched_files.
         api e (Contents owner repo (encodeURIComponent f)) = Throw err)) \<and>
   (answers e owner repo \<longrightarrow>
      (fst (detectTech n e owner repo) = Throw err) = (failure e owner repo = Some err) \<and>
      (fst (detectTech_basic e owner repo) = Throw err) = (failure e owner repo = Some err)) \<and>
   (answers e owner repo \<and>
    api e (Contents owner repo (encodeURIComponent ''package.json'')) = Throw err \<longrightarrow>
      fst (detectTech n e owner repo) = Throw err \<and>
      fst (detectTech_basic e owner repo) = Throw err) \<and>
   (api e (Languages owner repo) = Throw err' \<and> fst (detectTech n e owner repo) = Ok t \<longrightarrow>
      hasTS t =
        (manifest_lists e owner repo [''typescript''] \<or>
         has_text e owner repo ''tsconfig.json'' \<or>
         has_text e owner repo ''tsconfig.base.json'')) \<and>
   (api e (Topics owner repo) = Throw err' \<and> fst (detectTech n e owner repo) = Ok t \<longrightarrow>
      topics t = [] \<and> hasReact t = manifest_lists e owner repo [''react'', ''react-dom'']) \<and>
   (api e (Languages owner repo) = Throw err' \<and> fst (detectTech_basic e owner repo) = Ok b \<longrightarrow>
      basic_hasTS b =
        (manifest_lists e owner repo [''typescript''] \<or>
         has_text e owner repo ''tsconfig.json'' \<or>
         has_text e owner repo ''tsconfig.base.json'')) \<and>
   (api e (Topics owner repo) = Throw err' \<and> fst (detectTech_basic e owner repo) = Ok b \<longrightarrow>
      basic_hasReact b = manifest_lists e owner repo [''react'', ''react-dom'']) \<and>
   (\<not> stopping stop st \<and> full_name it \<notin> set (processed st) \<and>
    \<not> analysed_cap cfg (Suc (length (processed st))) \<and>
    fst (detectTech n e (owner_login it) (item_name it)) = Throw err \<longrightarrow>
      snd (item_step cfg n e stop it st) = Next \<and>
      csv (fst (item_step cfg n e stop it st)) = csv st)"
proof -
  have 1: "\<exists>f\<in>set fetched_files.
      api e (Contents owner repo (encodeURIComponent f)) = Throw err"
    if "fst (detectTech n e owner repo) = Throw err"
    using that by (rule detectTech_Throw)
  have 2: "\<exists>f\<in>set fetched_files.
      api e (Contents owner repo (encodeURIComponent f)) = Throw err"
    if "fst (detectTech_basic e owner repo) = Throw err"
    using that by (rule detectTech_basic_Throw)
  have 3: "(fst (detectTech n e owner repo) = Throw err) = (failure e owner repo = Some err)"
    and 4: "(fst (detectTech_basic e owner repo) = Throw err) = (failure e owner repo = Some err)"
    if "answers e owner repo"
    using that by (simp_all add: detectTech_Throw_iff detectLayers_Throw_iff
        detectTech_basic_Throw_iff)
  have 5: "fst (detectTech n e owner repo) = Throw err \<and>
      fst (detectTech_basic e owner repo) = Throw err"
    if "answers e owner repo"
      "api e (Contents owner repo (encodeURIComponent ''package.json'')) = Throw err"
    using 3 [OF that(1)] 4 [OF that(1)] failure_manifest [OF that(2)] by simp
  have 6: "hasTS t =
        (manifest_lists e owner repo [''typescript''] \<or>
         has_text e owner repo ''tsconfig.json'' \<or>
         has_text e owner repo ''tsconfig.base.json'')"
    if "api e (Languages owner repo) = Throw err'" "fst (detectTech n e owner repo) = Ok t"
  proof -
    from detectTech_fields [OF that(2)] obtain s
      where s: "fst (detectLayers e owner repo) = Ok s" "hasTS t = hasTS s" by blast
    from detectLayers_fields(1) [OF s(1)] s(2) languages_fail [OF that(1)]
    show ?thesis by simp
  qed
  have 7: "topics t = [] \<and> hasReact t = manifest_lists e owner repo [''react'', ''react-dom'']"
    if "api e (Topics owner repo) = Throw err'" "fst (detectTech n e owner repo) = Ok t"
  proof -
    from detectTech_fields [OF that(2)] obtain s
      where s: "fst (detectLayers e owner repo) = Ok s" "topics t = topics s"
        "hasReact t = hasReact s" by blast
    from detectLayers_fields(2,4) [OF s(1)] s(2,3) topics_fail [OF that(1)]
    show ?thesis by simp
  qed
  have 8: "basic_hasTS b =
        (manifest_lists e owner repo [''typescript''] \<or>
         has_text e owner repo ''tsconfig.json'' \<or>
         has_text e owner repo ''tsconfig.base.json'')"
    if "api e (Languages owner repo) = Throw err'" "fst (detectTech_basic e owner repo) = Ok b"
    using detectTech_basic_fields(1) [OF that(2)] languages_fail [OF that(1)] by simp
  have 9: "basic_hasReact b = manifest_lists e owner repo [''react'', ''react-dom'']"
    if "api e (Topics owner repo) = Throw err'" "fst (detectTech_basic e owner repo) = Ok b"
    using detectTech_basic_fields(2) [OF that(2)] topics_fail [OF that(1)] by simp
  note 10 = item_step_catches [of stop st it cfg n e err]
  show ?thesis
    apply (intro conjI impI)
    subgoal by (rule 1)
    subgoal by (rule 2)
    subgoal by (rule 3)
    subgoal by (rule 4)
    subgoal using 5 by blast
    subgoal using 5 by blast
    subgoal using 6 by blast
    subgoal using 7 by blast
    subgoal using 7 by blast
    subgoal using 8 by blast
    subgoal using 9 by blast
    subgoal using 10 by blast
    subgoal using 10 by blast
    done
qed

lemma broken_file_answers: "answers (broken_file f) ''acme'' ''shop''"
  by (simp add: answers_def broken_file_def not_found_def)

theorem detectTech_raises_only_file_fetch_witness:
  "answers (broken_file ''jest.config.mjs'') ''acme'' ''shop'' \<and>
   failure (broken_file ''jest.config.mjs'') ''acme'' ''shop'' = Some (HttpError 503) \<and>
   fst (detectTech 2 (broken_file ''jest.config.mjs'') ''acme'' ''shop'') =
     Throw (HttpError 503) \<and>
   fst (detectTech_basic (broken_file ''tsconfig.base.json'') ''acme'' ''shop'') =
     Throw (HttpError 503) \<and>
   fst (detectTech 2 (broken_file ''package.json'') ''acme'' ''shop'') =
     Throw (HttpError 503) \<and>
   (\<exists>f\<in>set fetched_files.
      api manifest_down (Contents ''acme'' ''shop'' (encodeURIComponent f)) =
        Throw (HttpError 500)) \<and>
   api flaky (Languages ''acme'' ''shop'') = Throw (HttpError 502) \<and>
   api flaky (Topics ''acme'' ''shop'') = Throw (HttpError 502) \<and>
   (\<exists>t. fst (detectTech 2 flaky ''acme'' ''shop'') = Ok t \<and> \<not> hasTS t \<and> topics t = [] \<and>
        \<not> hasReact t) \<and>
   (\<exists>b. fst (detectTech_basic flaky ''acme'' ''shop'') = Ok b \<and> \<not> basic_hasTS b \<and>
        \<not> basic_hasReact b) \<and>
   snd (item_step default_config 2 manifest_down never hit_shop start) = Next \<and>
   csv (fst (item_step default_config 2 manifest_down never hit_shop start)) = csv start"
proof -
  note T = detectTech_raises_only_file_fetch
  have f1: "failure (broken_file ''jest.config.mjs'') ''acme'' ''shop'' = Some (HttpError 503)"
    and f2: "failure (broken_file ''tsconfig.base.json'') ''acme'' ''shop'' =
      Some (HttpError 503)"
    by code_simp+
  have f3: "api (broken_file ''package.json'')
      (Contents ''acme'' ''shop'' (encodeURIComponent ''package.json'')) = Throw (HttpError 503)"
    by code_simp
  have 1: "fst (detectTech 2 (broken_file ''jest.config.mjs'') ''acme'' ''shop'') =
      Throw (HttpError 503)"
    using T [where n = 2 and e = "broken_file ''jest.config.mjs''" and owner = "''acme''"
        and repo = "''shop''" and err = "HttpError 503"]
      broken_file_answers [of "''jest.config.mjs''"] f1
    by blast
  have 2: "fst (detectTech_basic (broken_file ''tsconfig.base.json'') ''acme'' ''shop'') =
      Throw (HttpError 503)"
    using T [where e = "broken_file ''tsconfig.base.json''" and owner = "''acme''"
        and repo = "''shop''" and err = "HttpError 503"]
      broken_file_answers [of "''tsconfig.base.json''"] f2
    by blast
  have 3: "fst (detectTech 2 (broken_file ''package.json'') ''acme'' ''shop'') =
      Throw (HttpError 503)"
    using T [where n = 2 and e = "broken_file ''package.json''" and owner = "''acme''"
        and repo = "''shop''" and err = "HttpError 503"]
      broken_file_answers [of "''package.json''"] f3
    by blast
  have a: "fst (detectTech 2 manifest_down ''acme'' ''shop'') = Throw (HttpError 500)"
    by code_simp
  have 4: "\<exists>f\<in>set fetched_files.
      api manifest_down (Contents ''acme'' ''shop'' (encodeURIComponent f)) =
        Throw (HttpError 500)"
    using T [where n = 2 and e = manifest_down and owner = "''acme''" and repo = "''shop''"
        and err = "HttpError 500"] a
    by blast
  have l: "api flaky (Languages ''acme'' ''shop'') = Throw (HttpError 502)"
    and tp: "api flaky (Topics ''acme'' ''shop'') = Throw (HttpError 502)"
    by (simp_all add: flaky_def)
  have none: "\<not> (manifest_lists flaky ''acme'' ''shop'' [''typescript''] \<or>
       has_text flaky ''acme'' ''shop'' ''tsconfig.json'' \<or>
       has_text flaky ''acme'' ''shop'' ''tsconfig.base.json'')"
    "\<not> manifest_lists flaky ''acme'' ''shop'' [''react'', ''react-dom'']"
    by code_simp+
  have "fst (detectTech 2 flaky ''acme'' ''shop'') =
      Ok \<lparr>hasTS = False, hasReact = False, hasJest = False, hasFrontendTests = False,
          feLibs = [], topics = [], hasReactDeps = False, hasFrontendTestLibs = False\<rparr>"
    by code_simp
  then obtain t where t: "fst (detectTech 2 flaky ''acme'' ''shop'') = Ok t" by blast
  have 5: "\<not> hasTS t \<and> topics t = [] \<and> \<not> hasReact t"
    using T [where n = 2 and e = flaky and owner = "''acme''" and repo = "''shop''"
        and err' = "HttpError 502" and t = t] l tp t none
    by blast
  have "fst (detectTech_basic flaky ''acme'' ''shop'') =
      Ok \<lparr>basic_hasTS = False, basic_hasReact = False, basic_hasJest = False\<rparr>"
    by code_simp
  then obtain b where b: "fst (detectTech_basic flaky ''acme'' ''shop'') = Ok b" by blast
  have 6: "\<not> basic_hasTS b \<and> \<not> basic_hasReact b"
    using T [where e = flaky and owner = "''acme''" and repo = "''shop''"
        and err' = "HttpError 502" and b = b] l tp b none
    by blast
  have d: "\<not> stopping never start \<and> full_name hit_shop \<notin> set (processed start) \<and>
      \<not> analysed_cap default_config (Suc (length (processed start))) \<and>
      owner_login hit_shop = ''acme'' \<and> item_name hit_shop = ''shop''"
    by (simp add: stopping_def never_def start_def hit_shop_def analysed_cap_def
        default_config_def)
  have 7: "snd (item_step default_config 2 manifest_down never hit_shop start) = Next \<and>
      csv (fst (item_step default_config 2 manifest_down never hit_shop start)) = csv start"
    using a d
      T [where n = 2 and e = manifest_down and err = "HttpError 500" and stop = never
        and st = start and it = hit_shop and cfg = default_config]
    by simp
  from 1 2 3 4 5 6 7 l tp t b f1 broken_file_answers [of "''jest.config.mjs''"]
  show ?thesis by blast
qed

lemma detectLayers_libs:
  assumes "fst (detectLayers e owner repo) = Ok s"
  shows "hasFrontendTestLibs s =
      manifest_lists e owner repo
        [''@testing-library/react'', ''@testing-library/jest-dom'',
         ''@testing-library/user-event'', ''enzyme'']"
    and "''test-files'' \<notin> set (feLibs s)"
proof -
  from assms obtain pkgText jest where
    p: "fst (getRepoContent e owner repo ''package.json'') = Ok pkgText"
    and s: "hasFrontendTestLibs s =
        (case manifest e pkgText of None \<Rightarrow> False
         | Some j \<Rightarrow> fe_hasFrontendTestLibs (detectFrontendFromPkg e j))"
      "feLibs s =
        (if \<not> (case manifest e pkgText of None \<Rightarrow> False
                | Some j \<Rightarrow> fe_hasJest (detectFrontendFromPkg e j)) \<and> jest \<and>
            ''jest'' \<notin> set (case manifest e pkgText of None \<Rightarrow> []
                             | Some j \<Rightarrow> fe_libs (detectFrontendFromPkg e j))
         then (case manifest e pkgText of None \<Rightarrow> []
               | Some j \<Rightarrow> fe_libs (detectFrontendFromPkg e j)) @ [''jest'']
         else (case manifest e pkgText of None \<Rightarrow> []
               | Some j \<Rightarrow> fe_libs (detectFrontendFromPkg e j)))"
    unfolding detectLayers_def Let_def
    by (auto simp: bind_io_fst_Ok ret_def)
  from p have m: "manifest e pkgText = package_json e owner repo"
    using manifest_file_text [of e owner repo]
    by (auto simp: fst_getRepoContent split: outcome.splits)
  show "hasFrontendTestLibs s =
      manifest_lists e owner repo
        [''@testing-library/react'', ''@testing-library/jest-dom'',
         ''@testing-library/user-event'', ''enzyme'']"
    using s(1) unfolding m
    by (auto simp: detectFrontendFromPkg_def Let_def manifest_lists_def pkgHasAnyDep_listed
        split: option.splits)
  show "''test-files'' \<notin> set (feLibs s)"
    using s(2) unfolding m
    by (auto simp: detectFrontendFromPkg_def Let_def split: option.splits if_splits)
qed

lemma detectTech_layers:
  "fst (detectTech n e owner repo) = Ok t \<Longrightarrow> \<exists>s. fst (detectLayers e owner repo) = Ok s"
  unfolding detectTech_def by (auto dest!: fst_bind_io_Ok)

lemma detectTech_no_scan:
  assumes "fst (detectLayers e owner repo) = Ok s" "hasFrontendTestLibs s"
  shows "detectTech n e owner repo =
    (Ok (s\<lparr>hasFrontendTests := (hasReact s \<and> hasJest s)\<rparr>), snd (detectLayers e owner repo))"
  using assms unfolding detectTech_def
  by (cases "detectLayers e owner repo") (simp add: bind_io_def ret_def)

text \<open>
  C2 (as stated) fails: the manifest of the example with typescript added to its
  devDependencies gives a true language signal although the language breakdown reports
  no TypeScript.
\<close>

theorem manifest_detection_counterexample:
  "package_json (js_repo example_pkg_ts) ''acme'' ''shop'' = Some example_pkg_ts \<and>
   lists example_pkg_ts ''dependencies'' ''react'' \<and>
   lists example_pkg_ts ''devDependencies'' ''jest'' \<and>
   lists example_pkg_ts ''devDependencies'' ''@testing-library/react'' \<and>
   \<not> languageTS (js_repo example_pkg_ts) ''acme'' ''shop'' \<and>
   fst (detectTech 2 (js_repo example_pkg_ts) ''acme'' ''shop'') =
     Ok \<lparr>hasTS = True, hasReact = True, hasJest = True, hasFrontendTests = True,
         feLibs = [''testing-library'', ''jest''], topics = [], hasReactDeps = True,
         hasFrontendTestLibs = True\<rparr>"
  by code_simp

text \<open>
  C2 (amended). When package.json has text that parses to a value listing react in its
  dependencies and jest and @testing-library/react in its devDependencies, each with a
  truthy value, every result \<open>detectTech\<close> returns has the framework, test-runner and
  frontend-test-library signals true, found without the source scan (no listing of src
  is requested); its language signal is true exactly when the language breakdown
  reports TypeScript bytes, or the manifest lists typescript, or tsconfig.json or
  tsconfig.base.json has text.
\<close>

theorem manifest_detection:
  assumes pk: "package_json e owner repo = Some pkg"
    and r: "lists pkg ''dependencies'' ''react''"
    and j: "lists pkg ''devDependencies'' ''jest''"
    and l: "lists pkg ''devDependencies'' ''@testing-library/react''"
    and res: "fst (detectTech n e owner repo) = Ok t"
  shows "hasReact t \<and> hasJest t \<and> hasFrontendTestLibs t \<and> hasFrontendTests t \<and>
         ''test-files'' \<notin> set (feLibs t) \<and>
         Contents owner repo ''src'' \<notin> set (snd (detectTech n e owner repo)) \<and>
         (hasTS t =
            (languageTS e owner repo \<or> listed pkg ''typescript'' \<or>
             has_text e owner repo ''tsconfig.json'' \<or>
             has_text e owner repo ''tsconfig.base.json''))"
proof -
  from detectTech_fields [OF res] obtain s where s: "fst (detectLayers e owner repo) = Ok s"
    by blast
  note F = detectLayers_fields [OF s] and L = detectLayers_libs [OF s]
  have libs: "hasFrontendTestLibs s"
    using L(1) pk l by (simp add: manifest_lists_def listed_def)
  have react: "hasReact s"
    using F(4) pk r by (simp add: manifest_lists_def listed_def)
  have jest: "hasJest s"
    using F(5) pk j by (simp add: jest_known_def manifest_lists_def listed_def)
  have ts: "hasTS s =
      (languageTS e owner repo \<or> listed pkg ''typescript'' \<or>
       has_text e owner repo ''tsconfig.json'' \<or> has_text e owner repo ''tsconfig.base.json'')"
    using F(1) pk by (simp add: typescript_known_def manifest_lists_def)
  note eq = detectTech_no_scan [OF s libs, of n]
  from eq res have t: "t = s\<lparr>hasFrontendTests := (hasReact s \<and> hasJest s)\<rparr>" by simp
  have "Contents owner repo ''src'' \<notin> set (snd (detectTech n e owner repo))"
    using eq detectLayers_no_src [of owner repo e] by simp
  with t libs react jest ts L(2) show ?thesis by simp
qed

theorem manifest_detection_witness:
  "package_json (js_repo example_pkg) ''acme'' ''shop'' = Some example_pkg \<and>
   fst (detectTech 2 (js_repo example_pkg) ''acme'' ''shop'') =
     Ok \<lparr>hasTS = False, hasReact = True, hasJest = True, hasFrontendTests = True,
         feLibs = [''testing-library'', ''jest''], topics = [], hasReactDeps = True,
         hasFrontendTestLibs = True\<rparr> \<and>
   \<not> (languageTS (js_repo example_pkg) ''acme'' ''shop'' \<or> listed example_pkg ''typescript'' \<or>
      has_text (js_repo example_pkg) ''acme'' ''shop'' ''tsconfig.json'' \<or>
      has_text (js_repo example_pkg) ''acme'' ''shop'' ''tsconfig.base.json'') \<and>
   package_json tsconfig_repo ''acme'' ''shop'' = Some example_pkg \<and>
   \<not> languageTS tsconfig_repo ''acme'' ''shop'' \<and>
   has_text tsconfig_repo ''acme'' ''shop'' ''tsconfig.base.json'' \<and>
   (\<exists>t. fst (detectTech 2 tsconfig_repo ''acme'' ''shop'') = Ok t \<and> hasTS t \<and> hasReact t \<and>
        hasJest t \<and> hasFrontendTestLibs t)"
proof -
  have w1: "package_json (js_repo example_pkg) ''acme'' ''shop'' = Some example_pkg"
    and v1: "package_json tsconfig_repo ''acme'' ''shop'' = Some example_pkg"
    by code_simp+
  have w4: "lists example_pkg ''dependencies'' ''react''"
    and w5: "lists example_pkg ''devDependencies'' ''jest''"
    and w6: "lists example_pkg ''devDependencies'' ''@testing-library/react''"
    by code_simp+
  have w7: "fst (detectTech 2 (js_repo example_pkg) ''acme'' ''shop'') =
     Ok \<lparr>hasTS = False, hasReact = True, hasJest = True, hasFrontendTests = True,
         feLibs = [''testing-library'', ''jest''], topics = [], hasReactDeps = True,
         hasFrontendTestLibs = True\<rparr>"
    by code_simp
  have v2: "\<not> languageTS tsconfig_repo ''acme'' ''shop''"
    and v3: "has_text tsconfig_repo ''acme'' ''shop'' ''tsconfig.base.json''"
    by code_simp+
  have "fst (detectTech 2 tsconfig_repo ''acme'' ''shop'') =
     Ok \<lparr>hasTS = True, hasReact = True, hasJest = True, hasFrontendTests = True,
         feLibs = [''testing-library'', ''jest''], topics = [], hasReactDeps = True,
         hasFrontendTestLibs = True\<rparr>"
    by code_simp
  then obtain t where v7: "fst (detectTech 2 tsconfig_repo ''acme'' ''shop'') = Ok t"
    by blast
  from manifest_detection [OF w1 w4 w5 w6 w7] manifest_detection [OF v1 w4 w5 w6 v7]
    w1 w7 v1 v2 v3 v7
  show ?thesis by auto
qed

section \<open>Properties of the source scan\<close>

lemma or_else_Ok:
  "(fst (or_else m k) = Ok b) =
     ((fst m = Ok True \<and> b) \<or> ((fst m = Ok False \<or> (\<exists>err. fst m = Throw err)) \<and> fst k = Ok b))"
  by (cases m) (auto simp: or_else_def after_def split: outcome.splits)

lemma or_else_Throw:
  "(fst (or_else m k) = Throw err) =
     ((fst m = Ok False \<or> (\<exists>err'. fst m = Throw err')) \<and> fst k = Throw err)"
  by (cases m) (auto simp: or_else_def after_def split: outcome.splits)

lemma or_else_NoReturn:
  "(fst (or_else m k) = NoReturn) =
     (fst m = NoReturn \<or> ((fst m = Ok False \<or> (\<exists>err. fst m = Throw err)) \<and> fst k = NoReturn))"
  by (cases m) (auto simp: or_else_def after_def split: outcome.splits)

lemma or_else_snd:
  "snd (or_else m k) =
     (if fst m = Ok True \<or> fst m = NoReturn then snd m else snd m @ snd k)"
  by (cases m) (auto simp: or_else_def after_def split: outcome.splits)

lemma checkFile_Ok:
  "(fst (checkFile e owner repo item) = Ok b) =
     (if isTestFile (ename item)
      then (\<exists>content. fst (getRepoContent e owner repo (epath item)) = Ok content \<and>
              b = (case content of None \<Rightarrow> False
                   | Some c \<Rightarrow> c \<noteq> [] \<and> (hasRenderImport c \<or> hasEnzymeImport c)))
      else \<not> b)"
  by (auto simp: checkFile_def bind_io_fst_Ok ret_def)

text \<open>What the code tests, put in terms of what the scan is expected to look for.\<close>

lemma isTestFile_iff: "isTestFile name = test_file_name name"
  by (induction name) (auto simp: test_file_name_def suffix_Cons)

lemma react_test_text_iff:
  "(c \<noteq> [] \<and> (hasRenderImport c \<or> hasEnzymeImport c)) = react_test_text c"
  by (auto simp: hasRenderImport_def hasEnzymeImport_def react_test_text_def
      str_includes_sublist)

lemma depth_segments: "depth p = segments p"
  by (induction p) (simp_all add: depth_def segments_def)

lemma dir_listing_iff:
  "(dir_listing e owner repo p = Some sub) =
     (\<exists>r. api e (Contents owner repo p) = Ok r \<and> listing r = Some sub)"
  by (cases "api e (Contents owner repo p)") (simp_all add: dir_listing_def listing_def)

lemma nestedD:
  "nested e owner repo \<Longrightarrow> api e (Contents owner repo p) = Ok r \<Longrightarrow> listing r = Some sub \<Longrightarrow>
   \<forall>it\<in>set sub. depth p < depth (epath it)"
  unfolding nested_def depth_segments using dir_listing_iff by blast

lemma file_text_Some:
  "(file_text e owner repo p = Some c) = (fst (getRepoContent e owner repo p) = Ok (Some c))"
  by (cases "api e (Contents owner repo (encodeURIComponent p))")
     (simp_all add: fst_getRepoContent, simp_all add: file_text_def)

lemma checkFile_True:
  assumes "etype item = ''file''"
  shows "(fst (checkFile e owner repo item) = Ok True) = positive e owner repo item"
proof -
  have "(fst (checkFile e owner repo item) = Ok True) =
      (test_file_name (ename item) \<and>
       (\<exists>c. fst (getRepoContent e owner repo (epath item)) = Ok (Some c) \<and> react_test_text c))"
    unfolding checkFile_Ok isTestFile_iff react_test_text_iff [symmetric]
    by (auto split: option.splits)
  also have "\<dots> = positive e owner repo item"
    using assms unfolding positive_def file_text_Some [symmetric]
    by (auto split: option.splits)
  finally show ?thesis .
qed

lemma has_react_test_Nil: "\<not> has_react_test e owner repo [] basePath"
  by (auto elim: has_react_test.cases)

lemma has_react_test_step:
  "has_react_test e owner repo (item # rest) basePath =
     (positive e owner repo item \<or>
      (etype item = ''dir'' \<and> ename item \<noteq> ''node_modules'' \<and> ename item \<noteq> ''.git'' \<and>
       segments basePath < 3 \<and>
       (\<exists>sub. dir_listing e owner repo (epath item) = Some sub \<and>
          has_react_test e owner repo sub (epath item))) \<or>
      has_react_test e owner repo rest basePath)"
  (is "?L = ?R")
proof
  assume ?L
  then show ?R
    by (cases rule: has_react_test.cases) (auto intro: has_react_test.intros)
next
  assume ?R
  then show ?L
    by (auto intro: has_react_test.here [of item] has_react_test.below [of item]
        elim!: has_react_test.cases [of e owner repo rest basePath]
        intro: has_react_test.here has_react_test.below simp del: set_ConsD)
qed

lemma has_react_test_Cons:
  "has_react_test e owner repo (item # rest) basePath =
     (positive e owner repo item \<or>
      (etype item = ''dir'' \<and> ename item \<noteq> ''node_modules'' \<and> ename item \<noteq> ''.git'' \<and>
       depth basePath < 3 \<and>
       (\<exists>r sub. api e (Contents owner repo (epath item)) = Ok r \<and> listing r = Some sub \<and>
          has_react_test e owner repo sub (epath item))) \<or>
      has_react_test e owner repo rest basePath)"
  unfolding has_react_test_step [of e owner repo item rest basePath] depth_segments
    dir_listing_iff
  by blast


text \<open>The round that enters a directory, for any traversal \<open>F\<close> of the listing.\<close>

lemma enter_Ok:
  "(fst (bind_io (request e u) (\<lambda>r. case listing r of None \<Rightarrow> ret False
        | Some sub \<Rightarrow> (case n of 0 \<Rightarrow> (NoReturn, []) | Suc m \<Rightarrow> F m sub))) = Ok b) =
   (\<exists>r. api e u = Ok r \<and>
      (listing r = None \<and> \<not> b \<or>
       (\<exists>sub m. listing r = Some sub \<and> n = Suc m \<and> fst (F m sub) = Ok b)))"
  by (cases "api e u")
     (auto simp: bind_io_def request_eq ret_def split: option.splits nat.splits prod.splits)

lemma enter_Throw:
  "(fst (bind_io (request e u) (\<lambda>r. case listing r of None \<Rightarrow> ret False
        | Some sub \<Rightarrow> (case n of 0 \<Rightarrow> (NoReturn, []) | Suc m \<Rightarrow> F m sub))) = Throw err) =
   (api e u = Throw err \<or>
    (\<exists>r sub m. api e u = Ok r \<and> listing r = Some sub \<and> n = Suc m \<and>
       fst (F m sub) = Throw err))"
  by (cases "api e u")
     (auto simp: bind_io_def request_eq ret_def split: option.splits nat.splits prod.splits)

lemma enter_NoReturn:
  "(fst (bind_io (request e u) (\<lambda>r. case listing r of None \<Rightarrow> ret False
        | Some sub \<Rightarrow> (case n of 0 \<Rightarrow> (NoReturn, []) | Suc m \<Rightarrow> F m sub))) = NoReturn) =
   (api e u = NoReturn \<or>
    (\<exists>r sub. api e u = Ok r \<and> listing r = Some sub \<and>
       (n = 0 \<or> (\<exists>m. n = Suc m \<and> fst (F m sub) = NoReturn))))"
  by (cases "api e u")
     (auto simp: bind_io_def request_eq ret_def split: option.splits nat.splits prod.splits)

lemma enter_snd:
  "fst (bind_io (request e u) (\<lambda>r. case listing r of None \<Rightarrow> ret False
        | Some sub \<Rightarrow> (case n of 0 \<Rightarrow> (NoReturn, []) | Suc m \<Rightarrow> F m sub))) = Ok True \<Longrightarrow>
   \<exists>r sub m. api e u = Ok r \<and> listing r = Some sub \<and> n = Suc m \<and> fst (F m sub) = Ok True \<and>
     snd (bind_io (request e u) (\<lambda>r. case listing r of None \<Rightarrow> ret False
        | Some sub \<Rightarrow> (case n of 0 \<Rightarrow> (NoReturn, []) | Suc m \<Rightarrow> F m sub))) = u # snd (F m sub)"
  by (cases "api e u")
     (auto simp: bind_io_def request_eq ret_def split: option.splits nat.splits prod.splits)

lemma scan_no_Throw:
  "fst (searchDirectoryForReactTests n e owner repo items basePath) \<noteq> Throw err"
  by (induction n e owner repo items basePath rule: searchDirectoryForReactTests.induct)
     (simp_all add: or_else_Throw)

lemma positive_file: "positive e owner repo item \<Longrightarrow> etype item = ''file''"
  by (simp add: positive_def)

lemma scan_finds:
  "fst (searchDirectoryForReactTests n e owner repo items basePath) = Ok b \<Longrightarrow>
   b = has_react_test e owner repo items basePath"
proof (induction n e owner repo items basePath arbitrary: b
    rule: searchDirectoryForReactTests.induct)
  case (1 n e owner repo basePath)
  then show ?case by (simp add: has_react_test_Nil)
next
  case (2 n e owner repo item rest basePath)
  let ?rest = "searchDirectoryForReactTests n e owner repo rest basePath"
  let ?enter = "etype item = ''dir'' \<and> ename item \<noteq> ''node_modules'' \<and> ename item \<noteq> ''.git'' \<and>
      depth basePath < 3"
  consider (isfile) "etype item = ''file''"
    | (isdir) "etype item \<noteq> ''file''" ?enter
    | (other) "etype item \<noteq> ''file''" "\<not> ?enter"
    by blast
  then show ?case
  proof cases
    case isfile
    then have "positive e owner repo item = (fst (checkFile e owner repo item) = Ok True)"
      by (simp add: checkFile_True)
    with isfile "2.prems" "2.IH"(2) show ?thesis
      by (subst has_react_test_Cons) (auto simp: or_else_Ok)
  next
    case isdir
    then have np: "\<not> positive e owner repo item" by (auto dest: positive_file)
    have sub: "b' = has_react_test e owner repo sub (epath item)"
      if "listing r = Some sub" "n = Suc m"
        "fst (searchDirectoryForReactTests m e owner repo sub (epath item)) = Ok b'"
      for r sub m b'
      using "2.IH"(1) [of r sub m b'] isdir that by simp
    from isdir "2.prems" have
      "(\<exists>r sub m. api e (Contents owner repo (epath item)) = Ok r \<and> listing r = Some sub \<and>
          n = Suc m \<and>
          fst (searchDirectoryForReactTests m e owner repo sub (epath item)) = Ok True \<and> b) \<or>
       ((\<forall>r sub. api e (Contents owner repo (epath item)) = Ok r \<longrightarrow> listing r = Some sub \<longrightarrow>
           (\<exists>m. n = Suc m \<and>
              fst (searchDirectoryForReactTests m e owner repo sub (epath item)) = Ok False)) \<and>
        fst ?rest = Ok b)"
      by (auto simp: or_else_Ok enter_Ok enter_Throw scan_no_Throw)
    then show ?thesis
    proof
      assume "\<exists>r sub m. api e (Contents owner repo (epath item)) = Ok r \<and> listing r = Some sub \<and>
          n = Suc m \<and>
          fst (searchDirectoryForReactTests m e owner repo sub (epath item)) = Ok True \<and> b"
      then show ?thesis
        using sub isdir by (subst has_react_test_Cons) blast
    next
      assume a: "(\<forall>r sub. api e (Contents owner repo (epath item)) = Ok r \<longrightarrow>
           listing r = Some sub \<longrightarrow>
           (\<exists>m. n = Suc m \<and>
              fst (searchDirectoryForReactTests m e owner repo sub (epath item)) = Ok False)) \<and>
        fst ?rest = Ok b"
      then have "b = has_react_test e owner repo rest basePath"
        using "2.IH"(2) by blast
      moreover have "\<not> (\<exists>r sub. api e (Contents owner repo (epath item)) = Ok r \<and>
          listing r = Some sub \<and> has_react_test e owner repo sub (epath item))"
        using a sub by blast
      ultimately show ?thesis
        using np by (subst has_react_test_Cons) blast
    qed
  next
    case other
    then have np: "\<not> positive e owner repo item" by (auto dest: positive_file)
    from other "2.prems" have "fst ?rest = Ok b"
      by (auto simp: or_else_Ok ret_def)
    then have "b = has_react_test e owner repo rest basePath"
      using "2.IH"(2) by blast
    with other np show ?thesis
      by (subst has_react_test_Cons) blast
  qed
qed

lemma checkFile_responsive:
  "responsive e \<Longrightarrow> fst (checkFile e owner repo item) \<noteq> NoReturn"
  by (auto simp: checkFile_def bind_io_fst_NoReturn ret_def getRepoContent_eq responsive_def
      split: outcome.splits)

lemma scan_returns:
  "responsive e \<Longrightarrow> nested e owner repo \<Longrightarrow>
   \<forall>it\<in>set items. depth basePath < depth (epath it) \<Longrightarrow> 3 \<le> n + depth basePath \<Longrightarrow>
   fst (searchDirectoryForReactTests n e owner repo items basePath) \<noteq> NoReturn"
proof (induction n e owner repo items basePath rule: searchDirectoryForReactTests.induct)
  case (1 n e owner repo basePath)
  then show ?case by simp
next
  case (2 n e owner repo item rest basePath)
  have rest: "fst (searchDirectoryForReactTests n e owner repo rest basePath) \<noteq> NoReturn"
    using "2.IH"(2) "2.prems" by simp
  have sub: "fst (searchDirectoryForReactTests m e owner repo sub (epath item)) \<noteq> NoReturn"
    if "etype item \<noteq> ''file''" "etype item = ''dir''" "ename item \<noteq> ''node_modules''"
      "ename item \<noteq> ''.git''" "depth basePath < 3"
      "api e (Contents owner repo (epath item)) = Ok r" "listing r = Some sub" "n = Suc m"
    for r sub m
  proof -
    have "\<forall>it\<in>set sub. depth (epath item) < depth (epath it)"
      using nestedD [OF "2.prems"(2) that(6,7)] .
    moreover have "3 \<le> m + depth (epath item)"
      using "2.prems"(3,4) that(8) by simp
    ultimately show ?thesis
      using "2.IH"(1) [of r sub m] that "2.prems"(1,2) by simp
  qed
  have n0: "n \<noteq> 0" if "depth basePath < 3"
    using that "2.prems"(4) by simp
  have api: "api e u \<noteq> NoReturn" for u
    using "2.prems"(1) by (simp add: responsive_def)
  show ?case
    using rest sub n0 api "2.prems"(1)
    by (auto simp: or_else_NoReturn enter_NoReturn ret_def checkFile_responsive)
qed

lemma checkFile_snd_True:
  "fst (checkFile e owner repo item) = Ok True \<Longrightarrow>
   snd (checkFile e owner repo item) = [Contents owner repo (encodeURIComponent (epath item))]"
  by (auto simp: checkFile_def bind_io_snd ret_def getRepoContent_eq split: if_splits outcome.splits)

lemma scan_short_circuit:
  "fst (searchDirectoryForReactTests n e owner repo items basePath) = Ok True \<Longrightarrow>
   \<exists>it. positive e owner repo it \<and>
     snd (searchDirectoryForReactTests n e owner repo items basePath) \<noteq> [] \<and>
     last (snd (searchDirectoryForReactTests n e owner repo items basePath)) =
       Contents owner repo (encodeURIComponent (epath it))"
proof (induction n e owner repo items basePath rule: searchDirectoryForReactTests.induct)
  case (1 n e owner repo basePath)
  then show ?case by simp
next
  case (2 n e owner repo item rest basePath)
  let ?rest = "searchDirectoryForReactTests n e owner repo rest basePath"
  let ?round = "if etype item = ''file'' then checkFile e owner repo item
        else if etype item = ''dir'' \<and> ename item \<noteq> ''node_modules'' \<and> ename item \<noteq> ''.git'' \<and>
                depth basePath < 3
        then bind_io (request e (Contents owner repo (epath item))) (\<lambda>r.
               case listing r of
                 None \<Rightarrow> ret False
               | Some sub \<Rightarrow>
                   (case n of
                      0 \<Rightarrow> (NoReturn, [])
                    | Suc m \<Rightarrow> searchDirectoryForReactTests m e owner repo sub (epath item)))
        else ret False"
  have eq: "searchDirectoryForReactTests n e owner repo (item # rest) basePath =
      or_else ?round ?rest"
    by simp
  from "2.prems" consider (now) "fst ?round = Ok True" | (later) "fst ?round \<noteq> Ok True" "fst ?rest = Ok True"
    unfolding eq by (auto simp: or_else_Ok)
  then show ?case
  proof cases
    case later
    then obtain it where it: "positive e owner repo it" "snd ?rest \<noteq> []"
        "last (snd ?rest) = Contents owner repo (encodeURIComponent (epath it))"
      using "2.IH"(2) by blast
    from later "2.prems" have "snd (or_else ?round ?rest) = snd ?round @ snd ?rest"
      unfolding eq by (auto simp: or_else_snd or_else_Ok)
    with it show ?thesis unfolding eq by auto
  next
    case now
    then have s: "snd (or_else ?round ?rest) = snd ?round"
      by (simp add: or_else_snd)
    show ?thesis
    proof (cases "etype item = ''file''")
      case True
      with now have "positive e owner repo item"
        "snd ?round = [Contents owner repo (encodeURIComponent (epath item))]"
        by (simp_all add: checkFile_True checkFile_snd_True)
      then show ?thesis unfolding eq s by auto
    next
      case False
      with now have d: "etype item = ''dir'' \<and> ename item \<noteq> ''node_modules'' \<and>
          ename item \<noteq> ''.git'' \<and> depth basePath < 3"
        by (auto simp: ret_def split: if_splits)
      with False now enter_snd [where e = e and u = "Contents owner repo (epath item)" and n = n
          and F = "\<lambda>m sub. searchDirectoryForReactTests m e owner repo sub (epath item)"]
      obtain r sub m where r: "api e (Contents owner repo (epath item)) = Ok r"
          "listing r = Some sub" "n = Suc m"
          "fst (searchDirectoryForReactTests m e owner repo sub (epath item)) = Ok True"
          "snd ?round = Contents owner repo (epath item) #
             snd (searchDirectoryForReactTests m e owner repo sub (epath item))"
        by auto
      from "2.IH"(1) [of r sub m] False d r
      obtain it where "positive e owner repo it"
          "snd (searchDirectoryForReactTests m e owner repo sub (epath item)) \<noteq> []"
          "last (snd (searchDirectoryForReactTests m e owner repo sub (epath item))) =
             Contents owner repo (encodeURIComponent (epath it))"
        by auto
      with r(5) show ?thesis unfolding eq s by auto
    qed
  qed
qed

lemma root_Ok:
  "(fst (bind_io (request e u) (\<lambda>r. case listing r of None \<Rightarrow> ret False
        | Some sub \<Rightarrow> F sub)) = Ok b) =
   (\<exists>r. api e u = Ok r \<and>
      (listing r = None \<and> \<not> b \<or> (\<exists>sub. listing r = Some sub \<and> fst (F sub) = Ok b)))"
  by (cases "api e u")
     (auto simp: bind_io_def request_eq ret_def split: option.splits prod.splits)

lemma root_Throw:
  "(fst (bind_io (request e u) (\<lambda>r. case listing r of None \<Rightarrow> ret False
        | Some sub \<Rightarrow> F sub)) = Throw err) =
   (api e u = Throw err \<or>
    (\<exists>r sub. api e u = Ok r \<and> listing r = Some sub \<and> fst (F sub) = Throw err))"
  by (cases "api e u")
     (auto simp: bind_io_def request_eq ret_def split: option.splits prod.splits)

lemma root_NoReturn:
  "(fst (bind_io (request e u) (\<lambda>r. case listing r of None \<Rightarrow> ret False
        | Some sub \<Rightarrow> F sub)) = NoReturn) =
   (api e u = NoReturn \<or>
    (\<exists>r sub. api e u = Ok r \<and> listing r = Some sub \<and> fst (F sub) = NoReturn))"
  by (cases "api e u")
     (auto simp: bind_io_def request_eq ret_def split: option.splits prod.splits)

lemma root_snd:
  "snd (bind_io (request e u) (\<lambda>r. case listing r of None \<Rightarrow> ret False
        | Some sub \<Rightarrow> F sub)) =
   u # (case api e u of
          Ok r \<Rightarrow> (case listing r of None \<Rightarrow> [] | Some sub \<Rightarrow> snd (F sub))
        | _ \<Rightarrow> [])"
  by (cases "api e u")
     (auto simp: bind_io_def request_eq ret_def split: option.splits prod.splits)

lemma patterns_no_Throw: "fst (searchPatterns n e owner repo ps) \<noteq> Throw err"
  by (induction ps) (simp_all add: or_else_Throw)

lemma patterns_find:
  "fst (searchPatterns n e owner repo ps) = Ok b \<Longrightarrow>
   b = (\<exists>p\<in>set ps. \<exists>r sub. api e (Contents owner repo p) = Ok r \<and> listing r = Some sub \<and>
          has_react_test e owner repo sub p)"
proof (induction ps arbitrary: b)
  case Nil
  then show ?case by simp
next
  case (Cons p ps)
  from Cons.prems have
    "(\<exists>r sub. api e (Contents owner repo p) = Ok r \<and> listing r = Some sub \<and>
        fst (searchDirectoryForReactTests n e owner repo sub p) = Ok True \<and> b) \<or>
     ((\<forall>r sub. api e (Contents owner repo p) = Ok r \<longrightarrow> listing r = Some sub \<longrightarrow>
         fst (searchDirectoryForReactTests n e owner repo sub p) = Ok False) \<and>
      fst (searchPatterns n e owner repo ps) = Ok b)"
    by (auto simp: or_else_Ok root_Ok root_Throw scan_no_Throw)
  then show ?case
  proof
    assume "\<exists>r sub. api e (Contents owner repo p) = Ok r \<and> listing r = Some sub \<and>
        fst (searchDirectoryForReactTests n e owner repo sub p) = Ok True \<and> b"
    then show ?thesis using scan_finds by fastforce
  next
    assume a: "(\<forall>r sub. api e (Contents owner repo p) = Ok r \<longrightarrow> listing r = Some sub \<longrightarrow>
         fst (searchDirectoryForReactTests n e owner repo sub p) = Ok False) \<and>
      fst (searchPatterns n e owner repo ps) = Ok b"
    then have "\<not> (\<exists>r sub. api e (Contents owner repo p) = Ok r \<and> listing r = Some sub \<and>
          has_react_test e owner repo sub p)"
      using scan_finds by blast
    with a Cons.IH [of b] show ?thesis by auto
  qed
qed

lemma patterns_return:
  assumes "responsive e" "nested e owner repo" "\<forall>p\<in>set ps. 3 \<le> n + depth p"
  shows "fst (searchPatterns n e owner repo ps) \<noteq> NoReturn"
  using assms(3)
proof (induction ps)
  case Nil
  then show ?case by simp
next
  case (Cons p ps)
  have "fst (searchDirectoryForReactTests n e owner repo sub p) \<noteq> NoReturn"
    if "api e (Contents owner repo p) = Ok r" "listing r = Some sub" for r sub
  proof -
    have "\<forall>it\<in>set sub. depth p < depth (epath it)"
      using nestedD [OF assms(2) that] .
    then show ?thesis
      using scan_returns [OF assms(1,2)] Cons.prems by simp
  qed
  moreover have "api e u \<noteq> NoReturn" for u
    using assms(1) by (simp add: responsive_def)
  ultimately show ?case
    using Cons by (auto simp: or_else_NoReturn root_NoReturn)
qed

lemma patterns_short_circuit:
  "fst (searchPatterns n e owner repo ps) = Ok True \<Longrightarrow>
   \<exists>it. positive e owner repo it \<and> snd (searchPatterns n e owner repo ps) \<noteq> [] \<and>
     last (snd (searchPatterns n e owner repo ps)) =
       Contents owner repo (encodeURIComponent (epath it))"
proof (induction ps)
  case Nil
  then show ?case by simp
next
  case (Cons p ps)
  let ?round = "bind_io (request e (Contents owner repo p)) (\<lambda>r.
          case listing r of
            None \<Rightarrow> ret False
          | Some sub \<Rightarrow> searchDirectoryForReactTests n e owner repo sub p)"
  let ?rest = "searchPatterns n e owner repo ps"
  have eq: "searchPatterns n e owner repo (p # ps) = or_else ?round ?rest" by simp
  from Cons.prems consider (now) "fst ?round = Ok True"
    | (later) "fst ?round \<noteq> Ok True" "fst ?rest = Ok True"
    unfolding eq by (auto simp: or_else_Ok)
  then show ?case
  proof cases
    case later
    then obtain it where it: "positive e owner repo it" "snd ?rest \<noteq> []"
        "last (snd ?rest) = Contents owner repo (encodeURIComponent (epath it))"
      using Cons.IH by blast
    from later Cons.prems have "snd (or_else ?round ?rest) = snd ?round @ snd ?rest"
      unfolding eq by (auto simp: or_else_snd or_else_Ok)
    with it show ?thesis unfolding eq by auto
  next
    case now
    then have s: "snd (or_else ?round ?rest) = snd ?round"
      by (simp add: or_else_snd)
    from now obtain r sub where r: "api e (Contents owner repo p) = Ok r" "listing r = Some sub"
        "fst (searchDirectoryForReactTests n e owner repo sub p) = Ok True"
      by (auto simp: root_Ok)
    then have "snd ?round = Contents owner repo p #
        snd (searchDirectoryForReactTests n e owner repo sub p)"
      by (simp add: root_snd)
    with scan_short_circuit [OF r(3)] show ?thesis unfolding eq s by auto
  qed
qed

lemma patterns_first:
  "snd (searchPatterns n e owner repo (p # ps)) \<noteq> [] \<and>
   hd (snd (searchPatterns n e owner repo (p # ps))) = Contents owner repo p"
  by (auto simp: or_else_snd root_snd)

lemma detectTech_eq:
  assumes "detectLayers e owner repo = (Ok s, l)"
  shows "detectTech n e owner repo =
    (if hasReact s \<and> hasJest s \<and> \<not> hasFrontendTestLibs s then
       (case fst (searchForTestFiles n e owner repo) of
          Ok True \<Rightarrow> Ok (s\<lparr>hasFrontendTestLibs := True, feLibs := feLibs s @ [''test-files''],
                           hasFrontendTests := True\<rparr>)
        | NoReturn \<Rightarrow> NoReturn
        | _ \<Rightarrow> Ok (s\<lparr>hasFrontendTests := False\<rparr>),
        l @ snd (searchForTestFiles n e owner repo))
     else (Ok (s\<lparr>hasFrontendTests := (hasReact s \<and> hasJest s \<and> hasFrontendTestLibs s)\<rparr>), l))"
  using assms unfolding detectTech_def
  by (cases "searchForTestFiles n e owner repo")
     (auto simp: bind_io_def ret_def catch_io_def split: outcome.splits)

lemma scan_first:
  "snd (searchForTestFiles n e owner repo) \<noteq> [] \<and>
   hd (snd (searchForTestFiles n e owner repo)) = Contents owner repo ''src''"
  unfolding searchForTestFiles_def testPatterns_def by (rule patterns_first)

lemma tree_has_react_test_iff:
  "tree_has_react_test e owner repo =
     (\<exists>p\<in>set testPatterns. \<exists>r sub. api e (Contents owner repo p) = Ok r \<and>
        listing r = Some sub \<and> has_react_test e owner repo sub p)"
  unfolding tree_has_react_test_def testPatterns_def dir_listing_iff by blast

lemma scan_result:
  "fst (searchForTestFiles n e owner repo) = Ok b \<Longrightarrow> b = tree_has_react_test e owner repo"
  unfolding searchForTestFiles_def tree_has_react_test_iff by (rule patterns_find)

lemma scan_terminates:
  "responsive e \<Longrightarrow> nested e owner repo \<Longrightarrow> 2 \<le> n \<Longrightarrow>
   fst (searchForTestFiles n e owner repo) \<noteq> NoReturn"
  unfolding searchForTestFiles_def
  by (rule patterns_return) (auto simp: testPatterns_def depth_def)

lemma render_line:
  assumes "sublist (''import { render } from '@testing-library/react'' @ [CHR 0x27]) c"
  shows "react_test_text c"
proof -
  have "sublist ''import { render }''
      (''import { render } from '@testing-library/react'' @ [CHR 0x27])"
    and "sublist ''@testing-library/react''
      (''import { render } from '@testing-library/react'' @ [CHR 0x27])"
    by code_simp+
  with assms have "sublist ''import { render }'' c" "sublist ''@testing-library/react'' c"
    using sublist_order.order_trans by blast+
  then show ?thesis by (simp add: react_test_text_def)
qed

lemma positive_named:
  assumes "etype it = ''file''"
    and "\<exists>stem. ename it = stem @ ''.test.ts'' \<or> ename it = stem @ ''.test.tsx'' \<or>
           ename it = stem @ ''.spec.ts'' \<or> ename it = stem @ ''.spec.tsx''"
    and "file_text e owner repo (epath it) = Some c"
    and "sublist (''import { render } from '@testing-library/react'' @ [CHR 0x27]) c \<or>
         sublist ''enzyme'' c \<or> sublist ''shallow'' c \<or> sublist ''mount'' c"
  shows "positive e owner repo it"
proof -
  from assms(2) have "test_file_name (ename it)"
    unfolding test_file_name_def by (auto simp: suffix_def)
  moreover from assms(4) have "react_test_text c"
    using render_line by (auto simp: react_test_text_def)
  ultimately show ?thesis using assms(1,3) by (simp add: positive_def)
qed

lemma tree_root:
  assumes "p \<in> set [''src'', ''__tests__'', ''test'', ''tests'']"
    and "dir_listing e owner repo p = Some sub" "it \<in> set sub" "positive e owner repo it"
  shows "tree_has_react_test e owner repo"
  unfolding tree_has_react_test_def
  using assms has_react_test.here [OF assms(3,4)] by blast

lemma tree_below:
  assumes "p \<in> set [''src'', ''__tests__'', ''test'', ''tests'']"
    and "dir_listing e owner repo p = Some sub" "d \<in> set sub" "etype d = ''dir''"
    and "ename d \<noteq> ''node_modules''" "ename d \<noteq> ''.git''"
    and "dir_listing e owner repo (epath d) = Some sub'" "it \<in> set sub'"
    and "positive e owner repo it"
  shows "tree_has_react_test e owner repo"
proof -
  have "segments p < 3"
    using assms(1) by (auto simp: segments_def)
  then have "has_react_test e owner repo sub p"
    using has_react_test.below [OF assms(3-6) _ assms(7) has_react_test.here [OF assms(8,9)]]
    by blast
  then show ?thesis
    unfolding tree_has_react_test_def using assms(1,2) by blast
qed

lemma scan_repo_layers: "detectLayers scan_repo ''acme'' ''ui'' =
  (Ok \<lparr>hasTS = True, hasReact = True, hasJest = True, hasFrontendTests = False,
       feLibs = [''jest''], topics = [], hasReactDeps = True, hasFrontendTestLibs = False\<rparr>,
   [Languages ''acme'' ''ui'', Contents ''acme'' ''ui'' ''package.json'', Topics ''acme'' ''ui''])"
  by code_simp

lemma scan_repo_responsive: "responsive scan_repo"
  by (simp add: responsive_def scan_repo_def file_ok_def dir_ok_def not_found_def)

lemma scan_repo_nested: "nested scan_repo ''acme'' ''ui''"
  unfolding nested_def dir_listing_def scan_repo_def
  by (auto simp: file_ok_def dir_ok_def not_found_def segments_def split: if_splits)

lemma enzyme_repo_layers: "detectLayers enzyme_repo ''acme'' ''legacy'' =
  (Ok \<lparr>hasTS = False, hasReact = True, hasJest = True, hasFrontendTests = False,
       feLibs = [''jest''], topics = [], hasReactDeps = True, hasFrontendTestLibs = False\<rparr>,
   [Languages ''acme'' ''legacy'', Contents ''acme'' ''legacy'' ''package.json'',
    Topics ''acme'' ''legacy'', Contents ''acme'' ''legacy'' ''tsconfig.json'',
    Contents ''acme'' ''legacy'' ''tsconfig.base.json''])"
  by code_simp

lemma enzyme_repo_responsive: "responsive enzyme_repo"
  by (simp add: responsive_def enzyme_repo_def file_ok_def dir_ok_def not_found_def)

lemma enzyme_repo_nested: "nested enzyme_repo ''acme'' ''legacy''"
  unfolding nested_def dir_listing_def enzyme_repo_def
  by (auto simp: file_ok_def dir_ok_def not_found_def segments_def split: if_splits)

text \<open>
  C3. Once the layers have returned, the source scan is run (its first request, the listing
  of src, is made) exactly when React and Jest were found and package.json named no test
  library; its requests then follow those of the layers. In that state the
  frontend-test-library signal \<open>detectTech\<close> returns says whether one of src, __tests__,
  test, tests has a listing holding a React test file, directly or in directories the
  traversal enters from a base path of fewer than three segments, and a find adds
  test-files to the libraries. When there is such a file, the API answers and listed
  entries lie below their directory, the scan returns (two nested listings suffice), the
  signal and the final rule are true, and the last request made is the fetch of a matching
  file: nothing is fetched after the first match. A file counts whose name ends in
  .test.ts, .test.tsx, .spec.ts or .spec.tsx and whose text has the line importing render
  from @testing-library/react or one of the words enzyme, shallow, mount; it is found
  when it is listed in one of the four directories or in a directory, other than
  node_modules and .git, listed there.
\<close>

theorem source_scan_fallback:
  assumes L: "detectLayers e owner repo = (Ok s, l)"
  shows "((Contents owner repo ''src'' \<in> set (snd (detectTech n e owner repo))) =
            (hasReact s \<and> hasJest s \<and> \<not> hasFrontendTestLibs s)) \<and>
         (hasReact s \<and> hasJest s \<and> \<not> hasFrontendTestLibs s \<longrightarrow>
            snd (detectTech n e owner repo) = l @ snd (searchForTestFiles n e owner repo) \<and>
            (\<forall>t. fst (detectTech n e owner repo) = Ok t \<longrightarrow>
               hasFrontendTestLibs t = tree_has_react_test e owner repo \<and>
               (tree_has_react_test e owner repo \<longrightarrow> feLibs t = feLibs s @ [''test-files''])) \<and>
            (tree_has_react_test e owner repo \<and> responsive e \<and> nested e owner repo \<and> 2 \<le> n \<longrightarrow>
               (\<exists>t. fst (detectTech n e owner repo) = Ok t \<and> hasFrontendTestLibs t \<and>
                     hasFrontendTests t) \<and>
               (\<exists>it. positive e owner repo it \<and>
                     last (snd (detectTech n e owner repo)) =
                       Contents owner repo (encodeURIComponent (epath it))))) \<and>
         (\<forall>it c. etype it = ''file'' \<and>
            (\<exists>stem. ename it = stem @ ''.test.ts'' \<or> ename it = stem @ ''.test.tsx'' \<or>
               ename it = stem @ ''.spec.ts'' \<or> ename it = stem @ ''.spec.tsx'') \<and>
            file_text e owner repo (epath it) = Some c \<and>
            (sublist (''import { render } from '@testing-library/react'' @ [CHR 0x27]) c \<or>
             sublist ''enzyme'' c \<or> sublist ''shallow'' c \<or> sublist ''mount'' c) \<longrightarrow>
            positive e owner repo it) \<and>
         (\<forall>p sub it. p \<in> set [''src'', ''__tests__'', ''test'', ''tests''] \<and>
            dir_listing e owner repo p = Some sub \<and> it \<in> set sub \<and>
            positive e owner repo it \<longrightarrow>
            tree_has_react_test e owner repo) \<and>
         (\<forall>p sub d sub' it. p \<in> set [''src'', ''__tests__'', ''test'', ''tests''] \<and>
            dir_listing e owner repo p = Some sub \<and> d \<in> set sub \<and> etype d = ''dir'' \<and>
            ename d \<noteq> ''node_modules'' \<and> ename d \<noteq> ''.git'' \<and>
            dir_listing e owner repo (epath d) = Some sub' \<and> it \<in> set sub' \<and>
            positive e owner repo it \<longrightarrow>
            tree_has_react_test e owner repo)"
proof -
  let ?scan = "searchForTestFiles n e owner repo"
  note eq = detectTech_eq [OF L, of n]
  have nosrc: "Contents owner repo ''src'' \<notin> set l"
    using detectLayers_no_src [of owner repo e] L by simp
  have first: "Contents owner repo ''src'' \<in> set (snd ?scan)"
    using scan_first [of n e owner repo] by (metis list.set_sel(1))
  have a: "(Contents owner repo ''src'' \<in> set (snd (detectTech n e owner repo))) =
            (hasReact s \<and> hasJest s \<and> \<not> hasFrontendTestLibs s)"
    using eq nosrc first by auto
  have b: "snd (detectTech n e owner repo) = l @ snd ?scan"
    if "hasReact s \<and> hasJest s \<and> \<not> hasFrontendTestLibs s"
    using eq that by simp
  have c: "hasFrontendTestLibs t = tree_has_react_test e owner repo \<and>
      (tree_has_react_test e owner repo \<longrightarrow> feLibs t = feLibs s @ [''test-files''])"
    if "hasReact s \<and> hasJest s \<and> \<not> hasFrontendTestLibs s"
      "fst (detectTech n e owner repo) = Ok t" for t
  proof (cases "fst ?scan")
    case (Ok found)
    then have "found = tree_has_react_test e owner repo" by (rule scan_result)
    with Ok that eq show ?thesis by (cases found) auto
  next
    case (Throw err)
    then show ?thesis
      using patterns_no_Throw [of n e owner repo testPatterns err]
      by (simp add: searchForTestFiles_def)
  next
    case NoReturn
    with that eq show ?thesis by simp
  qed
  have d: "(\<exists>t. fst (detectTech n e owner repo) = Ok t \<and> hasFrontendTestLibs t \<and>
                     hasFrontendTests t) \<and>
               (\<exists>it. positive e owner repo it \<and>
                     last (snd (detectTech n e owner repo)) =
                       Contents owner repo (encodeURIComponent (epath it)))"
    if c: "hasReact s \<and> hasJest s \<and> \<not> hasFrontendTestLibs s"
      and t: "tree_has_react_test e owner repo" and r: "responsive e" "nested e owner repo" "2 \<le> n"
  proof -
    have "fst ?scan \<noteq> NoReturn" using r by (rule scan_terminates)
    moreover have "fst ?scan \<noteq> Throw err" for err
      using patterns_no_Throw [of n e owner repo testPatterns err]
      by (simp add: searchForTestFiles_def)
    ultimately obtain found where f: "fst ?scan = Ok found" by (cases "fst ?scan") auto
    with scan_result [OF f] t have tr: "fst ?scan = Ok True" by simp
    then obtain it where it: "positive e owner repo it" "snd ?scan \<noteq> []"
        "last (snd ?scan) = Contents owner repo (encodeURIComponent (epath it))"
      using patterns_short_circuit [of n e owner repo testPatterns]
      by (auto simp: searchForTestFiles_def)
    from eq c tr it show ?thesis by auto
  qed
  note e = positive_named [of _ e owner repo] and f = tree_root [of _ e owner repo]
    and g = tree_below [of _ e owner repo]
  show ?thesis
    apply (intro conjI impI allI)
    subgoal by (rule a)
    subgoal using b by blast
    subgoal using c by blast
    subgoal using c by blast
    subgoal using d by blast
    subgoal using d by blast
    subgoal using e by blast
    subgoal using f by blast
    subgoal using g by blast
    done
qed

theorem source_scan_fallback_witness:
  "detectLayers scan_repo ''acme'' ''ui'' =
     (Ok \<lparr>hasTS = True, hasReact = True, hasJest = True, hasFrontendTests = False,
          feLibs = [''jest''], topics = [], hasReactDeps = True, hasFrontendTestLibs = False\<rparr>,
      [Languages ''acme'' ''ui'', Contents ''acme'' ''ui'' ''package.json'',
       Topics ''acme'' ''ui'']) \<and>
   tree_has_react_test scan_repo ''acme'' ''ui'' \<and> responsive scan_repo \<and>
   nested scan_repo ''acme'' ''ui'' \<and>
   Contents ''acme'' ''ui'' ''src'' \<in> set (snd (detectTech 2 scan_repo ''acme'' ''ui'')) \<and>
   (\<exists>t. fst (detectTech 2 scan_repo ''acme'' ''ui'') = Ok t \<and> hasFrontendTestLibs t \<and>
        hasFrontendTests t \<and> feLibs t = [''jest'', ''test-files'']) \<and>
   file_text enzyme_repo ''acme'' ''legacy'' ''__tests__/App.spec.ts'' =
     Some ''import { shallow } from 'enzyme';'' \<and>
   tree_has_react_test enzyme_repo ''acme'' ''legacy'' \<and>
   (\<exists>t. fst (detectTech 2 enzyme_repo ''acme'' ''legacy'') = Ok t \<and> hasFrontendTestLibs t \<and>
        hasFrontendTests t \<and> feLibs t = [''jest'', ''test-files''])"
proof -
  note S = source_scan_fallback [OF scan_repo_layers, of 2]
  note E = source_scan_fallback [OF enzyme_repo_layers, of 2]
  let ?btn = "\<lparr>etype = ''file'', ename = ''Button.test.tsx'',
      epath = ''src/components/Button.test.tsx''\<rparr>"
  let ?comp = "[\<lparr>etype = ''file'', ename = ''Button.tsx'', epath = ''src/components/Button.tsx''\<rparr>,
      ?btn]"
  let ?dir = "\<lparr>etype = ''dir'', ename = ''components'', epath = ''src/components''\<rparr>"
  let ?src = "[\<lparr>etype = ''file'', ename = ''index.ts'', epath = ''src/index.ts''\<rparr>, ?dir]"
  let ?app = "\<lparr>etype = ''file'', ename = ''App.spec.ts'', epath = ''__tests__/App.spec.ts''\<rparr>"
  have s1: "file_text scan_repo ''acme'' ''ui'' (epath ?btn) =
      Some ''import { render } from '@testing-library/react';''"
    and s2: "dir_listing scan_repo ''acme'' ''ui'' ''src'' = Some ?src"
    and s3: "dir_listing scan_repo ''acme'' ''ui'' (epath ?dir) = Some ?comp"
    and e1: "file_text enzyme_repo ''acme'' ''legacy'' (epath ?app) =
      Some ''import { shallow } from 'enzyme';''"
    and e2: "dir_listing enzyme_repo ''acme'' ''legacy'' ''__tests__'' = Some [?app]"
    by code_simp+
  have s4: "sublist (''import { render } from '@testing-library/react'' @ [CHR 0x27])
      ''import { render } from '@testing-library/react';''"
    and e3: "sublist ''shallow'' ''import { shallow } from 'enzyme';''"
    by code_simp+
  have s5: "ename ?btn = ''Button'' @ ''.test.tsx''" and e4: "ename ?app = ''App'' @ ''.spec.ts''"
    by simp_all
  have ps: "positive scan_repo ''acme'' ''ui'' ?btn"
    using S s1 s4 s5 by (metis entry.select_convs(1))
  have pe: "positive enzyme_repo ''acme'' ''legacy'' ?app"
    using E e1 e3 e4 by (metis entry.select_convs(1))
  have ts: "tree_has_react_test scan_repo ''acme'' ''ui''"
  proof -
    have "''src'' \<in> set [''src'', ''__tests__'', ''test'', ''tests''] \<and>
        dir_listing scan_repo ''acme'' ''ui'' ''src'' = Some ?src \<and> ?dir \<in> set ?src \<and>
        etype ?dir = ''dir'' \<and> ename ?dir \<noteq> ''node_modules'' \<and> ename ?dir \<noteq> ''.git'' \<and>
        dir_listing scan_repo ''acme'' ''ui'' (epath ?dir) = Some ?comp \<and> ?btn \<in> set ?comp \<and>
        positive scan_repo ''acme'' ''ui'' ?btn"
      using s2 s3 ps by simp
    with S show ?thesis by blast
  qed
  have te: "tree_has_react_test enzyme_repo ''acme'' ''legacy''"
  proof -
    have "''__tests__'' \<in> set [''src'', ''__tests__'', ''test'', ''tests''] \<and>
        dir_listing enzyme_repo ''acme'' ''legacy'' ''__tests__'' = Some [?app] \<and>
        ?app \<in> set [?app] \<and> positive enzyme_repo ''acme'' ''legacy'' ?app"
      using e2 pe by simp
    with E show ?thesis by blast
  qed
  have rs: "\<exists>t. fst (detectTech 2 scan_repo ''acme'' ''ui'') = Ok t \<and> hasFrontendTestLibs t \<and>
        hasFrontendTests t \<and> feLibs t = [''jest'', ''test-files'']"
    using S ts scan_repo_responsive scan_repo_nested by auto
  have re: "\<exists>t. fst (detectTech 2 enzyme_repo ''acme'' ''legacy'') = Ok t \<and>
        hasFrontendTestLibs t \<and> hasFrontendTests t \<and> feLibs t = [''jest'', ''test-files'']"
    using E te enzyme_repo_responsive enzyme_repo_nested by auto
  have src: "Contents ''acme'' ''ui'' ''src'' \<in> set (snd (detectTech 2 scan_repo ''acme'' ''ui''))"
    using S [THEN conjunct1] by simp
  from scan_repo_layers ts scan_repo_responsive scan_repo_nested src rs e1 te re
  show ?thesis by simp
qed

text \<open>
  C9. An answer with status 404 makes \<open>ghGET\<close> return \<open>{ status: 404 }\<close> after that one
  attempt, without an exception, and \<open>getRepoContent\<close> turns that value into \<open>null\<close>. When
  none of the files \<open>detectTech\<close> fetches exists, \<open>detectTech\<close> does not throw.
\<close>

theorem not_found_is_absent:
  "(srv k = (lat, Response res) \<and> res_status res = 404 \<longrightarrow>
      ghGET (Suc n) srv k t = (Ok \<lparr>status = 404, data = None\<rparr>, [t])) \<and>
   (api e (Contents owner repo (encodeURIComponent p)) = Ok \<lparr>status = 404, data = None\<rparr> \<longrightarrow>
      getRepoContent e owner repo p =
        (Ok None, [Contents owner repo (encodeURIComponent p)])) \<and>
   ((\<forall>f\<in>set fetched_files.
       api e (Contents owner repo (encodeURIComponent f)) = Ok \<lparr>status = 404, data = None\<rparr>) \<longrightarrow>
      fst (detectTech m e owner repo) \<noteq> Throw err)"
proof (intro conjI impI)
  assume "srv k = (lat, Response res) \<and> res_status res = 404"
  then show "ghGET (Suc n) srv k t = (Ok \<lparr>status = 404, data = None\<rparr>, [t])"
    by simp
next
  assume "api e (Contents owner repo (encodeURIComponent p)) = Ok \<lparr>status = 404, data = None\<rparr>"
  then show "getRepoContent e owner repo p =
      (Ok None, [Contents owner repo (encodeURIComponent p)])"
    by (rule getRepoContent_not_found)
next
  assume a: "\<forall>f\<in>set fetched_files.
      api e (Contents owner repo (encodeURIComponent f)) = Ok \<lparr>status = 404, data = None\<rparr>"
  show "fst (detectTech m e owner repo) \<noteq> Throw err"
  proof
    assume "fst (detectTech m e owner repo) = Throw err"
    from detectTech_Throw [OF this] a show False by auto
  qed
qed

theorem not_found_is_absent_witness:
  "ghGET 1 missing 0 1699999990000 = (Ok \<lparr>status = 404, data = None\<rparr>, [1699999990000]) \<and>
   getRepoContent empty_repo ''acme'' ''shop'' ''package.json'' =
     (Ok None, [Contents ''acme'' ''shop'' ''package.json'']) \<and>
   fst (detectTech 2 empty_repo ''acme'' ''shop'') =
     Ok \<lparr>hasTS = False, hasReact = False, hasJest = False, hasFrontendTests = False,
         feLibs = [], topics = [], hasReactDeps = False, hasFrontendTestLibs = False\<rparr>"
proof -
  have s: "missing 0 =
      (40, Response \<lparr>res_status = 404, remaining = Some ''4998'', reset = Some ''1700003600'',
                     body = None\<rparr>) \<and>
      res_status \<lparr>res_status = 404, remaining = Some ''4998'', reset = Some ''1700003600'',
                  body = None\<rparr> = 404"
    by (simp add: missing_def)
  have a: "api empty_repo (Contents ''acme'' ''shop'' (encodeURIComponent ''package.json'')) =
      Ok \<lparr>status = 404, data = None\<rparr>"
    by (simp add: empty_repo_def not_found_def)
  have e: "encodeURIComponent ''package.json'' = ''package.json''"
    by code_simp
  have d: "fst (detectTech 2 empty_repo ''acme'' ''shop'') =
     Ok \<lparr>hasTS = False, hasReact = False, hasJest = False, hasFrontendTests = False,
         feLibs = [], topics = [], hasReactDeps = False, hasFrontendTestLibs = False\<rparr>"
    by code_simp
  from not_found_is_absent [where srv = missing and k = 0 and lat = 40
      and res = "\<lparr>res_status = 404, remaining = Some ''4998'', reset = Some ''1700003600'',
                  body = None\<rparr>"
      and n = 0 and t = 1699999990000 and e = empty_repo and owner = "''acme''"
      and repo = "''shop''" and p = "''package.json''"] s a e d
  show ?thesis by (simp del: ghGET.simps)
qed

section \<open>Properties of the driver\<close>

lemma items_loop_inv:
  assumes step: "\<And>it st st' fl. P st \<Longrightarrow> item_step cfg n e stop it st = (st', fl) \<Longrightarrow> P st'"
  shows "P st \<Longrightarrow> P (fst (items_loop cfg n e stop its st))"
proof (induction its arbitrary: st)
  case Nil
  then show ?case by simp
next
  case (Cons it its)
  obtain st' fl where s: "item_step cfg n e stop it st = (st', fl)"
    by (cases "item_step cfg n e stop it st")
  with step Cons.prems have "P st'" by blast
  with Cons.IH s show ?case by (cases fl) simp_all
qed

lemma pages_loop_inv:
  assumes step: "\<And>it st st' fl. P st \<Longrightarrow> item_step cfg n e stop it st = (st', fl) \<Longrightarrow> P st'"
    and tickP: "\<And>st. P st \<Longrightarrow> P (tick st)"
    and fetchP: "\<And>st x. P st \<Longrightarrow> P (st\<lparr>fetched := x\<rparr>)"
  shows "P st \<Longrightarrow> P (fst (pages_loop k cfg n e stop q page st))"
proof (induction k arbitrary: page st)
  case 0
  then show ?case by simp
next
  case (Suc k)
  let ?st1 = "(tick st)\<lparr>fetched := fetched st @ [(q, page)]\<rparr>"
  have p1: "P ?st1" using Suc.prems tickP fetchP by blast
  show ?case
  proof (cases "stopping stop st")
    case True
    with Suc.prems tickP show ?thesis by simp
  next
    case False
    show ?thesis
    proof (cases "fst (searchReposREST e q page (BATCH_SIZE cfg))")
      case (Ok res)
      obtain total its where res: "res = (total, its)" by (cases res)
      obtain st2 fl where l: "items_loop cfg n e stop its ?st1 = (st2, fl)"
        by (cases "items_loop cfg n e stop its ?st1")
      have p2: "P st2"
        using items_loop_inv [of P cfg n e stop ?st1 its, OF step p1] l by simp
      then have p3: "P (tick st2)" by (rule tickP)
      from Suc.IH [OF p3] p1 p2 p3 False Ok res l show ?thesis
        by (cases fl) (simp_all add: Let_def)
    qed (use False p1 in \<open>simp_all add: Let_def\<close>)
  qed
qed

lemma queries_loop_inv:
  assumes step: "\<And>it st st' fl. P st \<Longrightarrow> item_step cfg n e stop it st = (st', fl) \<Longrightarrow> P st'"
    and tickP: "\<And>st. P st \<Longrightarrow> P (tick st)"
    and fetchP: "\<And>st x. P st \<Longrightarrow> P (st\<lparr>fetched := x\<rparr>)"
  shows "P st \<Longrightarrow> P (fst (queries_loop k cfg n e stop qs st))"
proof (induction qs arbitrary: st)
  case Nil
  then show ?case by simp
next
  case (Cons q qs)
  obtain st' fl where l: "pages_loop k cfg n e stop q 1 (tick st) = (st', fl)"
    by (cases "pages_loop k cfg n e stop q 1 (tick st)")
  have "P (tick st)" using Cons.prems by (rule tickP)
  then have "P st'"
    using pages_loop_inv [of P cfg n e stop "tick st" k q 1, OF step tickP fetchP] l by simp
  with Cons.IH l Cons.prems tickP show ?case
    by (cases fl) simp_all
qed

lemma main_inv:
  assumes step: "\<And>it st st' fl. P st \<Longrightarrow> item_step cfg n e stop it st = (st', fl) \<Longrightarrow> P st'"
    and tickP: "\<And>st. P st \<Longrightarrow> P (tick st)"
    and fetchP: "\<And>st x. P st \<Longrightarrow> P (st\<lparr>fetched := x\<rparr>)"
    and init: "P start"
  shows "P (fst (main k cfg n e stop qs))"
  unfolding main_def using queries_loop_inv [of P cfg n e stop start k qs, OF step tickP fetchP init] .

lemma detectTech_final_rule:
  "fst (detectTech n e owner repo) = Ok t \<Longrightarrow>
   hasFrontendTests t = (hasReact t \<and> hasJest t \<and> hasFrontendTestLibs t)"
proof -
  assume t: "fst (detectTech n e owner repo) = Ok t"
  then obtain s where "fst (detectLayers e owner repo) = Ok s"
    using detectTech_layers by blast
  then obtain l where "detectLayers e owner repo = (Ok s, l)"
    by (cases "detectLayers e owner repo") simp
  from detectTech_eq [OF this, of n] t show ?thesis
    by (cases "fst (searchForTestFiles n e owner repo)")
       (auto split: if_splits bool.splits)
qed

lemma item_step_written:
  assumes "item_step cfg n e stop it st = (st', fl)"
  shows "csv st' = csv st \<or>
    (\<exists>t noise. fst (detectTech n e (owner_login it) (item_name it)) = Ok t \<and>
       fst (detectCourseOrBoilerplate cfg e (owner_login it) (item_name it)
              (Some (item_name it)) (description it) (topics t)) = Ok noise \<and>
       \<not> (EXCLUDE_COURSE_BOILERPLATE cfg \<and> noise) \<and>
       hasTS t \<and> hasReact t \<and> hasJest t \<and> hasFrontendTestLibs t \<and>
       csv st' = csv st @ [make_row it t])"
proof (cases "fst (detectTech n e (owner_login it) (item_name it))")
  case (Ok t)
  note rule = detectTech_final_rule [OF Ok]
  show ?thesis
  proof (cases "fst (detectCourseOrBoilerplate cfg e (owner_login it) (item_name it)
              (Some (item_name it)) (description it) (topics t))")
    case (Ok noise)
    with \<open>fst (detectTech n e (owner_login it) (item_name it)) = Ok t\<close> assms rule show ?thesis
      by (auto simp: item_step_def Let_def tick_def split: if_splits)
  qed (use Ok assms in \<open>auto simp: item_step_def Let_def tick_def split: if_splits\<close>)
qed (use assms in \<open>auto simp: item_step_def Let_def tick_def split: if_splits\<close>)

lemma detectTech_gql_tests:
  "fst (detectTech_gql e owner repo) = Ok t \<Longrightarrow>
   gql_hasFrontendTests t = (gql_hasJest t \<or> ''testing-library'' \<in> set (gql_feLibs t))"
  unfolding detectTech_gql_def Let_def
  apply (clarsimp simp: bind_io_fst_Ok ret_def)
  apply (auto simp: ret_def detectFrontendFromPkg_gql_def Let_def split: if_splits option.splits)
  done

lemma item_step_gql_written:
  assumes "item_step_gql cfg e stop it st = (st', fl)"
  shows "csv st' = csv st \<or>
    (\<exists>t noise. fst (detectTech_gql e (owner_login it) (item_name it)) = Ok t \<and>
       fst (detectCourseOrBoilerplate cfg e (owner_login it) (item_name it)
              (Some (item_name it)) (description it) (gql_topics t)) = Ok noise \<and>
       \<not> (EXCLUDE_COURSE_BOILERPLATE cfg \<and> noise) \<and>
       gql_hasTS t \<and> gql_hasReact t \<and>
       (REQUIRE_FRONTEND_TESTS cfg \<longrightarrow> gql_hasJest t \<or> ''testing-library'' \<in> set (gql_feLibs t)) \<and>
       csv st' = csv st @ [make_row_gql it t])"
proof (cases "fst (detectTech_gql e (owner_login it) (item_name it))")
  case (Ok t)
  note rule = detectTech_gql_tests [OF Ok]
  show ?thesis
  proof (cases "fst (detectCourseOrBoilerplate cfg e (owner_login it) (item_name it)
              (Some (item_name it)) (description it) (gql_topics t))")
    case (Ok noise)
    with \<open>fst (detectTech_gql e (owner_login it) (item_name it)) = Ok t\<close> assms rule show ?thesis
      by (auto simp: item_step_gql_def Let_def tick_def split: if_splits)
  qed (use Ok assms in \<open>auto simp: item_step_gql_def Let_def tick_def split: if_splits\<close>)
qed (use assms in \<open>auto simp: item_step_gql_def Let_def tick_def split: if_splits\<close>)

lemma rows_qualified:
  "\<forall>r\<in>set (csv (fst (main k cfg n e stop qs))). qualified_row r"
proof (rule main_inv [where P = "\<lambda>st. \<forall>r\<in>set (csv st). qualified_row r"])
  fix it st st' fl
  assume "\<forall>r\<in>set (csv st). qualified_row r" "item_step cfg n e stop it st = (st', fl)"
  then show "\<forall>r\<in>set (csv st'). qualified_row r"
    using item_step_written [of cfg n e stop it st st' fl]
    by (auto simp: qualified_row_def make_row_def)
qed (simp_all add: tick_def start_def)

lemma item_step_fetched:
  "item_step cfg n e stop it st = (st', fl) \<Longrightarrow> fetched st' = fetched st"
  by (auto simp: item_step_def Let_def tick_def split: if_splits outcome.splits)

lemma item_step_dedup:
  assumes "dedup st" "item_step cfg n e stop it st = (st', fl)"
  shows "dedup st'"
proof (cases "stopping stop st \<or> full_name it \<in> set (processed st)")
  case True
  with assms show ?thesis
    by (auto simp: item_step_def Let_def tick_def dedup_def split: if_splits)
next
  case False
  then have fresh: "full_name it \<notin> set (processed st)" "full_name it \<notin> set (analysed st)"
      "full_name it \<notin> set (map nameWithOwner (csv st))"
    using assms(1) by (auto simp: dedup_def)
  have p: "processed st' = processed st @ [full_name it]"
    using assms(2) False
    by (auto simp: item_step_def Let_def tick_def split: if_splits outcome.splits)
  have a: "analysed st' = analysed st \<or> analysed st' = analysed st @ [full_name it]"
    using assms(2) False
    by (auto simp: item_step_def Let_def tick_def split: if_splits outcome.splits)
  have c: "csv st' = csv st \<or>
      (analysed st' = analysed st @ [full_name it] \<and>
       (\<exists>t. csv st' = csv st @ [make_row it t]))"
    using assms(2) False
    by (auto simp: item_step_def Let_def tick_def split: if_splits outcome.splits)
  from assms(1) fresh p a c show ?thesis
    by (auto simp: dedup_def make_row_def)
qed

lemma item_step_capped:
  assumes m: "MAX_ANALYZED cfg = Some m" "0 < m"
    and inv: "capped m st" and step: "item_step cfg n e stop it st = (st', fl)"
  shows "capped m st'"
proof (cases "stopping stop st \<or> full_name it \<in> set (processed st)")
  case True
  with inv step show ?thesis
    by (auto simp: item_step_def Let_def tick_def capped_def split: if_splits)
next
  case False
  then have nl: "\<not> reachedLimit st" by (simp add: stopping_def)
  with inv have len: "int (length (processed st)) < m" by (auto simp: capped_def)
  then have an: "analysed st = processed st"
    using inv by (simp add: capped_def)
  show ?thesis
  proof (cases "analysed_cap cfg (Suc (length (processed st)))")
    case True
    with m len have eq: "int (length (processed st)) + 1 = m"
      by (simp add: analysed_cap_def)
    from step False True have
      "st' = (tick st)\<lparr>processed := processed st @ [full_name it], reachedLimit := True\<rparr>"
      by (simp add: item_step_def Let_def)
    with inv an eq show ?thesis
      by (auto simp: capped_def tick_def)
  next
    case cap: False
    with m len have lt: "int (length (processed st)) + 1 < m"
      by (simp add: analysed_cap_def)
    have p: "processed st' = processed st @ [full_name it]"
        "analysed st' = analysed st @ [full_name it]"
      using step False cap
      by (auto simp: item_step_def Let_def tick_def split: if_splits outcome.splits)
    have c: "csv st' = csv st \<or> (\<exists>t. csv st' = csv st @ [make_row it t])"
      using step False cap
      by (auto simp: item_step_def Let_def tick_def split: if_splits outcome.splits)
    from inv an lt p c show ?thesis
      by (auto simp: capped_def make_row_def)
  qed
qed

lemma dedup_main: "dedup (fst (main k cfg n e stop qs))"
proof (rule main_inv [where P = dedup])
  show "dedup start" by (simp add: dedup_def start_def)
  show "\<And>st. dedup st \<Longrightarrow> dedup (tick st)" by (simp add: dedup_def tick_def)
  show "\<And>st x. dedup st \<Longrightarrow> dedup (st\<lparr>fetched := x\<rparr>)" by (simp add: dedup_def)
  show "\<And>it st st' fl. dedup st \<Longrightarrow> item_step cfg n e stop it st = (st', fl) \<Longrightarrow> dedup st'"
    by (rule item_step_dedup)
qed

lemma item_step_skip:
  "full_name it \<in> set (processed st) \<Longrightarrow> fst (item_step cfg n e stop it st) = tick st"
  by (simp add: item_step_def)

lemma capped_main:
  assumes "MAX_ANALYZED cfg = Some m" "0 < m"
  shows "capped m (fst (main k cfg n e stop qs))"
proof (rule main_inv [where P = "capped m"])
  show "capped m start" using assms(2) by (simp add: capped_def start_def)
  show "\<And>st. capped m st \<Longrightarrow> capped m (tick st)" by (auto simp: capped_def tick_def)
  show "\<And>st x. capped m st \<Longrightarrow> capped m (st\<lparr>fetched := x\<rparr>)" by (auto simp: capped_def)
  show "\<And>it st st' fl. capped m st \<Longrightarrow> item_step cfg n e stop it st = (st', fl) \<Longrightarrow>
      capped m st'"
    using item_step_capped [OF assms] by blast
qed

lemma item_step_at_cap:
  assumes "MAX_ANALYZED cfg = Some m" "0 < m" "\<not> stopping stop st"
    "full_name it \<notin> set (processed st)" "m \<le> int (length (processed st)) + 1"
  shows "item_step cfg n e stop it st =
     ((tick st)\<lparr>processed := processed st @ [full_name it], reachedLimit := True\<rparr>, Break)"
  using assms by (simp add: item_step_def Let_def analysed_cap_def)

lemma ceil_div_mono: "0 < b \<Longrightarrow> a \<le> a' \<Longrightarrow> ceil_div a b \<le> ceil_div a' b"
  by (simp add: ceil_div_def zdiv_mono1)

lemma maxPages_le: "0 < b \<Longrightarrow> maxPages t b \<le> maxPages 1000 b"
  by (simp add: maxPages_def ceil_div_mono)

lemma maxPages_1000: "0 < b \<Longrightarrow> maxPages 1000 b \<le> 1000 \<and> 1 \<le> maxPages 1000 b"
proof -
  assume b: "0 < b"
  have "- 1000 \<le> (- 1000) div b"
    using b zdiv_mono2_neg [of "- 1000" 1 b] by simp
  moreover have "(- 1000) div b < 0"
    using b pos_imp_zdiv_neg_iff [of b "- 1000"] by simp
  ultimately show ?thesis by (simp add: maxPages_def ceil_div_def)
qed

lemma items_loop_fetched:
  "fetched (fst (items_loop cfg n e stop its st)) = fetched st"
proof (induction its arbitrary: st)
  case Nil
  then show ?case by simp
next
  case (Cons it its)
  obtain st' fl where s: "item_step cfg n e stop it st = (st', fl)"
    by (cases "item_step cfg n e stop it st")
  with item_step_fetched [OF s] Cons.IH [of st'] show ?case
    by (cases fl) simp_all
qed

lemma pages_loop_fetched:
  assumes b: "BATCH_SIZE cfg = Some b" "b \<noteq> 0"
  shows "\<exists>ps. fetched (fst (pages_loop k cfg n e stop q page st)) =
             fetched st @ map (Pair q) ps \<and> (\<forall>p\<in>set ps. allowed e b q page p)"
proof (induction k arbitrary: page st)
  case 0
  have "fetched st = fetched st @ map (Pair q) []" by simp
  then show ?case by (metis empty_iff empty_set fst_conv pages_loop.simps(1))
next
  case (Suc k)
  let ?st1 = "(tick st)\<lparr>fetched := fetched st @ [(q, page)]\<rparr>"
  have one: "\<exists>ps. fetched st @ [(q, page)] = fetched st @ map (Pair q) ps \<and>
      (\<forall>p\<in>set ps. allowed e b q page p)"
    by (rule exI [of _ "[page]"]) (simp add: allowed_def)
  have none: "\<exists>ps. fetched st = fetched st @ map (Pair q) ps \<and>
      (\<forall>p\<in>set ps. allowed e b q page p)"
    by (rule exI [of _ "[]"]) simp
  show ?case
  proof (cases "stopping stop st")
    case True
    with none show ?thesis by (simp add: tick_def)
  next
    case False
    show ?thesis
    proof (cases "fst (searchReposREST e q page (BATCH_SIZE cfg))")
      case (Ok res)
      obtain total its where res: "res = (total, its)" by (cases res)
      obtain st2 fl where l: "items_loop cfg n e stop its ?st1 = (st2, fl)"
        by (cases "items_loop cfg n e stop its ?st1")
      have f2: "fetched st2 = fetched st @ [(q, page)]"
        using items_loop_fetched [of cfg n e stop its ?st1] l by (simp add: tick_def)
      show ?thesis
      proof (cases "its = [] \<or> fl = Stuck \<or> stopping stop st2 \<or> last_page cfg page total")
        case True
        with False Ok res l f2 one show ?thesis
          by (cases fl) (auto simp: Let_def tick_def)
      next
        case go: False
        then have eq: "pages_loop (Suc k) cfg n e stop q page st =
            pages_loop k cfg n e stop q (page + 1) (tick st2)"
          using False Ok res l by (cases fl) (simp_all add: Let_def)
        from go b have lt: "page + 1 \<le> maxPages total b"
          by (simp add: last_page_def)
        have rep: "reported e q b page = Some total"
          using Ok res b by (simp add: reported_def)
        from Suc.IH [of "page + 1" "tick st2"] obtain ps where
          ps: "fetched (fst (pages_loop k cfg n e stop q (page + 1) (tick st2))) =
                fetched (tick st2) @ map (Pair q) ps"
            "\<forall>p\<in>set ps. allowed e b q (page + 1) p"
          by blast
        have "\<forall>p\<in>set (page # ps). allowed e b q page p"
        proof
          fix p assume "p \<in> set (page # ps)"
          then consider "p = page" | "p \<in> set ps" by auto
          then show "allowed e b q page p"
          proof cases
            case 1
            then show ?thesis by (simp add: allowed_def)
          next
            case 2
            with ps(2) have a: "allowed e b q (page + 1) p" by blast
            show ?thesis
            proof (cases "p = page + 1")
              case True
              with rep lt show ?thesis by (simp add: allowed_def)
            next
              case False
              with a show ?thesis by (auto simp: allowed_def)
            qed
          qed
        qed
        moreover have "fetched (fst (pages_loop (Suc k) cfg n e stop q page st)) =
            fetched st @ map (Pair q) (page # ps)"
          unfolding eq using ps(1) f2 by (simp add: tick_def)
        ultimately show ?thesis by blast
      qed
    qed (use False one in \<open>simp_all add: Let_def tick_def\<close>)
  qed
qed

lemma allowed_le: "0 < b \<Longrightarrow> allowed e b q 1 p \<Longrightarrow> 1 \<le> p \<and> p \<le> maxPages 1000 b"
proof -
  assume b: "0 < b" and a: "allowed e b q 1 p"
  show ?thesis
  proof (cases "1 < p")
    case True
    with a obtain t where "p \<le> maxPages t b" by (auto simp: allowed_def)
    with maxPages_le [OF b, of t] a show ?thesis by (simp add: allowed_def)
  next
    case False
    with a have "p = 1" by (simp add: allowed_def)
    with maxPages_1000 [OF b] show ?thesis by simp
  qed
qed

lemma queries_loop_fetched:
  assumes b: "BATCH_SIZE cfg = Some b" "b \<noteq> 0"
  shows "\<exists>xs. fetched (fst (queries_loop k cfg n e stop qs st)) = fetched st @ xs \<and>
           (\<forall>(q, p)\<in>set xs. q \<in> set qs \<and> allowed e b q 1 p)"
proof (induction qs arbitrary: st)
  case Nil
  then show ?case by simp
next
  case (Cons q qs)
  show ?case
  proof (cases "stopping stop st")
    case True
    then show ?thesis by (simp add: tick_def)
  next
    case False
    obtain st' fl where l: "pages_loop k cfg n e stop q 1 (tick st) = (st', fl)"
      by (cases "pages_loop k cfg n e stop q 1 (tick st)")
    from pages_loop_fetched [OF b, of k n e stop q 1 "tick st"] l
    obtain ps where ps: "fetched st' = fetched st @ map (Pair q) ps"
        "\<forall>p\<in>set ps. allowed e b q 1 p"
      by (auto simp: tick_def)
    from Cons.IH [of st'] obtain xs where
      xs: "fetched (fst (queries_loop k cfg n e stop qs st')) = fetched st' @ xs"
        "\<forall>(q, p)\<in>set xs. q \<in> set qs \<and> allowed e b q 1 p"
      by blast
    have here: "\<forall>(q', p)\<in>set (map (Pair q) ps). q' \<in> set (q # qs) \<and> allowed e b q' 1 p"
      using ps(2) by auto
    show ?thesis
    proof (cases "fl = Next")
      case True
      with False l have "fetched (fst (queries_loop k cfg n e stop (q # qs) st)) =
          fetched st @ (map (Pair q) ps @ xs)"
        using ps(1) xs(1) by simp
      moreover have "\<forall>(q', p)\<in>set (map (Pair q) ps @ xs). q' \<in> set (q # qs) \<and> allowed e b q' 1 p"
        using here xs(2) by auto
      ultimately show ?thesis by blast
    next
      case nf: False
      with False l have "fetched (fst (queries_loop k cfg n e stop (q # qs) st)) =
          fetched st @ map (Pair q) ps"
        using ps(1) by (cases fl) simp_all
      with here show ?thesis by blast
    qed
  qed
qed

lemma main_fetched:
  assumes "BATCH_SIZE cfg = Some b" "b \<noteq> 0" "(q, p) \<in> set (fetched (fst (main k cfg n e stop qs)))"
  shows "q \<in> set qs \<and> allowed e b q 1 p"
  using queries_loop_fetched [OF assms(1,2), of k n e stop qs start] assms(3)
  by (auto simp: main_def start_def)

lemma pages_loop_rounds:
  assumes b: "BATCH_SIZE cfg = Some b" "0 < b"
  shows "nat (maxPages 1000 b - page) < k \<Longrightarrow>
         snd (pages_loop k cfg n e stop q page st) \<noteq> Exhausted"
proof (induction k arbitrary: page st)
  case 0
  then show ?case by simp
next
  case (Suc k)
  let ?st1 = "(tick st)\<lparr>fetched := fetched st @ [(q, page)]\<rparr>"
  show ?case
  proof (cases "stopping stop st")
    case True
    then show ?thesis by simp
  next
    case False
    show ?thesis
    proof (cases "fst (searchReposREST e q page (BATCH_SIZE cfg))")
      case (Ok res)
      obtain total its where res: "res = (total, its)" by (cases res)
      obtain st2 fl where l: "items_loop cfg n e stop its ?st1 = (st2, fl)"
        by (cases "items_loop cfg n e stop its ?st1")
      show ?thesis
      proof (cases "its = [] \<or> fl = Stuck \<or> stopping stop st2 \<or> last_page cfg page total")
        case True
        with False Ok res l show ?thesis
          by (cases fl) (auto simp: Let_def)
      next
        case go: False
        then have eq: "pages_loop (Suc k) cfg n e stop q page st =
            pages_loop k cfg n e stop q (page + 1) (tick st2)"
          using False Ok res l by (cases fl) (simp_all add: Let_def)
        from go b have "page < maxPages total b"
          by (simp add: last_page_def)
        with maxPages_le [OF b(2), of total] have "page < maxPages 1000 b" by simp
        with Suc.prems have "nat (maxPages 1000 b - (page + 1)) < k" by simp
        from Suc.IH [OF this] show ?thesis unfolding eq .
      qed
    qed (use False in \<open>simp_all add: Let_def\<close>)
  qed
qed

lemma queries_loop_rounds:
  assumes b: "BATCH_SIZE cfg = Some b" "0 < b" and k: "1000 \<le> k"
  shows "snd (queries_loop k cfg n e stop qs st) \<noteq> Exhausted"
proof (induction qs arbitrary: st)
  case Nil
  then show ?case by simp
next
  case (Cons q qs)
  have "nat (maxPages 1000 b - 1) < k"
    using maxPages_1000 [OF b(2)] k by linarith
  from pages_loop_rounds [OF b this, of n e stop q "tick st"] Cons.IH show ?case
    by (cases "pages_loop k cfg n e stop q 1 (tick st)"; cases "snd (pages_loop k cfg n e stop q 1 (tick st))")
       simp_all
qed

lemma ceil_div_ceiling: "b \<noteq> 0 \<Longrightarrow> ceil_div a b = \<lceil>real_of_int a / real_of_int b\<rceil>"
proof -
  have "\<lceil>real_of_int a / real_of_int b\<rceil> = - \<lfloor>real_of_int (- a) / real_of_int b\<rfloor>"
    by (simp add: ceiling_def)
  also have "\<dots> = - ((- a) div b)"
    by (simp only: floor_divide_of_int_eq)
  finally show ?thesis by (simp add: ceil_div_def)
qed

lemma sample_run: "main 5 config_500 2 catalog never [''q''] =
  (\<lparr>processed = [''acme/ui'', ''acme/forms''], totalQualified = 1, reachedLimit = False,
    csv = [\<lparr>nameWithOwner = ''acme/ui'', stars = 120, row_hasTS = True, row_hasReact = True,
            row_hasJest = True, row_feLibs = [''jest'', ''test-files''],
            row_hasReactDeps = True, row_hasFrontendTestLibs = True\<rparr>],
    analysed = [''acme/ui'', ''acme/forms''], fetched = [(''q'', 1), (''q'', 2)],
    ticks = 9\<rparr>, Next)"
  by code_simp

lemma sample_run_capped: "main 5 config_cap2 2 catalog never [''q''] =
  (\<lparr>processed = [''acme/ui'', ''acme/forms''], totalQualified = 1, reachedLimit = True,
    csv = [\<lparr>nameWithOwner = ''acme/ui'', stars = 120, row_hasTS = True, row_hasReact = True,
            row_hasJest = True, row_feLibs = [''jest'', ''test-files''],
            row_hasReactDeps = True, row_hasFrontendTestLibs = True\<rparr>],
    analysed = [''acme/ui''], fetched = [(''q'', 1)], ticks = 5\<rparr>, Next)"
  by code_simp

text \<open>
  C4 (as stated) fails for the GraphQL-paginated script with filters: a TypeScript and React
  repository with @testing-library/react and no Jest is written, with the test-runner
  signal false.
\<close>

theorem qualification_rule_counterexample:
  "fst (detectTech_gql rtl_repo ''acme'' ''forms'') =
     Ok \<lparr>gql_hasTS = True, gql_hasReact = True, gql_hasJest = False,
         gql_hasFrontendTests = True, gql_feLibs = [''testing-library''], gql_topics = []\<rparr> \<and>
   csv (fst (item_step_gql default_config rtl_repo never hit_forms start)) =
     [\<lparr>nameWithOwner = ''acme/forms'', stars = 64, row_hasTS = True, row_hasReact = True,
       row_hasJest = False, row_feLibs = [''testing-library''], row_hasReactDeps = False,
       row_hasFrontendTestLibs = False\<rparr>]"
  by code_simp

text \<open>
  C4 (amended). In the REST-paginated script a candidate is written only if its analysis
  returned and the language, framework, test-runner and frontend-test-library signals are
  all true, and, when the exclusion of noise is enabled, it was not classified as noise;
  every row of every run has the four signals true. In the GraphQL-paginated script with
  filters a candidate is written only if the language and framework signals are true, it
  is not excluded as noise, and, when front-end tests are required, Jest or a Testing
  Library package was found.
\<close>

theorem qualification_rule:
  "(item_step cfg n e stop it st = (st', fl) \<longrightarrow>
      csv st' = csv st \<or>
      (\<exists>t noise. fst (detectTech n e (owner_login it) (item_name it)) = Ok t \<and>
         fst (detectCourseOrBoilerplate cfg e (owner_login it) (item_name it)
                (Some (item_name it)) (description it) (topics t)) = Ok noise \<and>
         \<not> (EXCLUDE_COURSE_BOILERPLATE cfg \<and> noise) \<and>
         hasTS t \<and> hasReact t \<and> hasJest t \<and> hasFrontendTestLibs t \<and>
         csv st' = csv st @ [make_row it t])) \<and>
   (\<forall>r\<in>set (csv (fst (main k cfg n e stop qs))). qualified_row r) \<and>
   (item_step_gql cfg e stop it st = (st'', fl') \<longrightarrow>
      csv st'' = csv st \<or>
      (\<exists>t noise. fst (detectTech_gql e (owner_login it) (item_name it)) = Ok t \<and>
         fst (detectCourseOrBoilerplate cfg e (owner_login it) (item_name it)
                (Some (item_name it)) (description it) (gql_topics t)) = Ok noise \<and>
         \<not> (EXCLUDE_COURSE_BOILERPLATE cfg \<and> noise) \<and>
         gql_hasTS t \<and> gql_hasReact t \<and>
         (REQUIRE_FRONTEND_TESTS cfg \<longrightarrow>
            gql_hasJest t \<or> ''testing-library'' \<in> set (gql_feLibs t)) \<and>
         csv st'' = csv st @ [make_row_gql it t]))"
  using item_step_written [of cfg n e stop it st st' fl] rows_qualified [of k cfg n e stop qs]
    item_step_gql_written [of cfg e stop it st st'' fl']
  by blast

theorem qualification_rule_witness:
  "item_step default_config 2 scan_repo never hit_ui start =
     (\<lparr>processed = [''acme/ui''], totalQualified = 1, reachedLimit = False,
       csv = [make_row hit_ui
                \<lparr>hasTS = True, hasReact = True, hasJest = True, hasFrontendTests = True,
                 feLibs = [''jest'', ''test-files''], topics = [], hasReactDeps = True,
                 hasFrontendTestLibs = True\<rparr>],
       analysed = [''acme/ui''], fetched = [], ticks = 1\<rparr>, Next) \<and>
   (\<exists>t noise. fst (detectTech 2 scan_repo (owner_login hit_ui) (item_name hit_ui)) = Ok t \<and>
      fst (detectCourseOrBoilerplate default_config scan_repo (owner_login hit_ui)
             (item_name hit_ui) (Some (item_name hit_ui)) (description hit_ui) (topics t)) =
        Ok noise \<and>
      \<not> (EXCLUDE_COURSE_BOILERPLATE default_config \<and> noise) \<and>
      hasTS t \<and> hasReact t \<and> hasJest t \<and> hasFrontendTestLibs t) \<and>
   list_all qualified_row (csv (fst (main 5 config_500 2 catalog never [''q''])))"
proof -
  let ?st = "\<lparr>processed = [''acme/ui''], totalQualified = 1, reachedLimit = False,
       csv = [make_row hit_ui
                \<lparr>hasTS = True, hasReact = True, hasJest = True, hasFrontendTests = True,
                 feLibs = [''jest'', ''test-files''], topics = [], hasReactDeps = True,
                 hasFrontendTestLibs = True\<rparr>],
       analysed = [''acme/ui''], fetched = [], ticks = 1\<rparr>"
  have s: "item_step default_config 2 scan_repo never hit_ui start = (?st, Next)"
    by code_simp
  have c: "csv ?st \<noteq> csv start" by (simp add: start_def)
  from qualification_rule [where cfg = default_config and n = 2 and e = scan_repo
      and stop = never and it = hit_ui and st = start and st' = ?st and fl = Next] s c
  have "\<exists>t noise. fst (detectTech 2 scan_repo (owner_login hit_ui) (item_name hit_ui)) = Ok t \<and>
      fst (detectCourseOrBoilerplate default_config scan_repo (owner_login hit_ui)
             (item_name hit_ui) (Some (item_name hit_ui)) (description hit_ui) (topics t)) =
        Ok noise \<and>
      \<not> (EXCLUDE_COURSE_BOILERPLATE default_config \<and> noise) \<and>
      hasTS t \<and> hasReact t \<and> hasJest t \<and> hasFrontendTestLibs t"
    by blast
  moreover from qualification_rule [where cfg = config_500 and n = 2 and e = catalog
      and stop = never and k = 5 and qs = "[''q'']"]
  have "list_all qualified_row (csv (fst (main 5 config_500 2 catalog never [''q''])))"
    unfolding list_all_iff by blast
  ultimately show ?thesis using s by blast
qed

text \<open>
  C6. With a page size \<open>b\<close> other than zero, every search page a run requests belongs to
  one of its queries and is page 1 or a later page \<open>p\<close> whose predecessor answered with a
  \<open>total_count\<close> such that \<open>p\<close> is at most \<open>ceil(min(total_count, 1000) / b)\<close>; with a
  positive page size no page beyond \<open>ceil(1000 / b)\<close> is requested, whatever the counts
  reported, and the loop over the pages of a query ends within 1000 rounds.
\<close>

theorem pagination_ceiling:
  "(BATCH_SIZE cfg = Some b \<and> b \<noteq> 0 \<and>
    (q, p) \<in> set (fetched (fst (main k cfg n e stop qs))) \<longrightarrow>
      q \<in> set qs \<and> 1 \<le> p \<and>
      (1 < p \<longrightarrow>
         (\<exists>t. reported e q b (p - 1) = Some t \<and>
              p \<le> \<lceil>real_of_int (min t 1000) / real_of_int b\<rceil>)) \<and>
      (0 < b \<longrightarrow> p \<le> \<lceil>1000 / real_of_int b\<rceil>)) \<and>
   (BATCH_SIZE cfg = Some b \<and> 0 < b \<and> 1000 \<le> k \<longrightarrow>
      snd (main k cfg n e stop qs) \<noteq> Exhausted)"
proof (intro conjI impI)
  assume a: "BATCH_SIZE cfg = Some b \<and> b \<noteq> 0 \<and>
    (q, p) \<in> set (fetched (fst (main k cfg n e stop qs)))"
  then have m: "q \<in> set qs \<and> allowed e b q 1 p"
    using main_fetched [of cfg b q p k n e stop qs] by blast
  then show "q \<in> set qs" and "1 \<le> p" by (simp_all add: allowed_def)
  show "\<exists>t. reported e q b (p - 1) = Some t \<and>
      p \<le> \<lceil>real_of_int (min t 1000) / real_of_int b\<rceil>" if "1 < p"
    using m that a ceil_div_ceiling [of b] by (auto simp: allowed_def maxPages_def)
  show "p \<le> \<lceil>1000 / real_of_int b\<rceil>" if "0 < b"
    using allowed_le [OF that, of e q p] m ceil_div_ceiling [of b 1000] that
    by (simp add: maxPages_def)
next
  assume "BATCH_SIZE cfg = Some b \<and> 0 < b \<and> 1000 \<le> k"
  then show "snd (main k cfg n e stop qs) \<noteq> Exhausted"
    using queries_loop_rounds [of cfg b k n e stop qs start] by (simp add: main_def)
qed

theorem pagination_ceiling_witness:
  "BATCH_SIZE config_500 = Some 500 \<and>
   fetched (fst (main 5 config_500 2 catalog never [''q''])) = [(''q'', 1), (''q'', 2)] \<and>
   reported catalog ''q'' 500 (2 - 1) = Some 5000 \<and>
   (2::int) \<le> \<lceil>real_of_int (min 5000 1000) / real_of_int 500\<rceil> \<and>
   (\<exists>t. reported catalog ''q'' 500 (2 - 1) = Some t \<and>
        2 \<le> \<lceil>real_of_int (min t 1000) / real_of_int 500\<rceil>) \<and>
   snd (main 1000 config_500 2 catalog never [''q'']) \<noteq> Exhausted"
proof -
  have b: "BATCH_SIZE config_500 = Some 500"
    by (simp add: config_500_def default_config_def)
  have f: "fetched (fst (main 5 config_500 2 catalog never [''q''])) = [(''q'', 1), (''q'', 2)]"
    by (simp add: sample_run)
  have r: "reported catalog ''q'' 500 (2 - 1) = Some 5000"
    by code_simp
  have c: "(2::int) \<le> \<lceil>real_of_int (min 5000 1000) / real_of_int 500\<rceil>"
    by simp
  from pagination_ceiling [where cfg = config_500 and b = 500 and q = "''q''" and p = 2
      and k = 5 and n = 2 and e = catalog and stop = never and qs = "[''q'']"] b f
  have "\<exists>t. reported catalog ''q'' 500 (2 - 1) = Some t \<and>
        2 \<le> \<lceil>real_of_int (min t 1000) / real_of_int 500\<rceil>"
    by simp
  moreover from pagination_ceiling [where cfg = config_500 and b = 500 and k = 1000
      and n = 2 and e = catalog and stop = never and qs = "[''q'']"] b
  have "snd (main 1000 config_500 2 catalog never [''q'']) \<noteq> Exhausted"
    by simp
  ultimately show ?thesis using b f r c by blast
qed

text \<open>
  C7. In every run of the REST-paginated script, however far it has got, no repository
  name was handed to the analysis twice and no two rows written carry the same name; every
  row belongs to an analysed name and every analysed name is in the processed set. An item
  whose name is already in the processed set changes nothing.
\<close>

theorem dedup_per_run:
  "distinct (map nameWithOwner (csv (fst (main k cfg n e stop qs)))) \<and>
   distinct (analysed (fst (main k cfg n e stop qs))) \<and>
   distinct (processed (fst (main k cfg n e stop qs))) \<and>
   (\<forall>r\<in>set (csv (fst (main k cfg n e stop qs))).
      nameWithOwner r \<in> set (analysed (fst (main k cfg n e stop qs)))) \<and>
   set (analysed (fst (main k cfg n e stop qs))) \<subseteq>
     set (processed (fst (main k cfg n e stop qs))) \<and>
   (full_name it \<in> set (processed st) \<longrightarrow>
      fst (item_step cfg n e stop it st) = tick st \<and>
      snd (item_step cfg n e stop it st) \<noteq> Stuck)"
  using dedup_main [of k cfg n e stop qs] item_step_skip [of it st cfg n e stop]
  by (auto simp: dedup_def item_step_def)

theorem dedup_per_run_witness:
  "analysed (fst (main 5 config_500 2 catalog never [''q''])) = [''acme/ui'', ''acme/forms''] \<and>
   distinct (map nameWithOwner (csv (fst (main 5 config_500 2 catalog never [''q''])))) \<and>
   full_name hit_ui \<in> set (processed (fst (main 5 config_500 2 catalog never [''q'']))) \<and>
   fst (item_step config_500 2 catalog never hit_ui
          (fst (main 5 config_500 2 catalog never [''q'']))) =
     tick (fst (main 5 config_500 2 catalog never [''q'']))"
proof -
  have a: "analysed (fst (main 5 config_500 2 catalog never [''q''])) =
      [''acme/ui'', ''acme/forms'']"
    by (simp add: sample_run)
  have p: "full_name hit_ui \<in> set (processed (fst (main 5 config_500 2 catalog never [''q''])))"
    by (simp add: sample_run hit_ui_def)
  from dedup_per_run [where k = 5 and cfg = config_500 and n = 2 and e = catalog
      and stop = never and qs = "[''q'']" and it = hit_ui
      and st = "fst (main 5 config_500 2 catalog never [''q''])"] a p
  show ?thesis by blast
qed

text \<open>
  C10. Under a positive cap \<open>m\<close> on analysed repositories, the item whose registration
  brings the processed set to \<open>m\<close> names is added to the set and ends the run without being
  analysed or written. In every run fewer than \<open>m\<close> repositories are analysed, namely the
  first \<open>m - 1\<close> registered, only those are written, at most \<open>m\<close> names are registered, and
  once \<open>m\<close> are registered the limit flag is set and the last name was never analysed.
\<close>

theorem analysed_cap_stops_before_analysis:
  "MAX_ANALYZED cfg = Some m \<and> 0 < m \<longrightarrow>
     (\<not> stopping stop st \<and> full_name it \<notin> set (processed st) \<and>
      m \<le> int (length (processed st)) + 1 \<longrightarrow>
        item_step cfg n e stop it st =
          ((tick st)\<lparr>processed := processed st @ [full_name it], reachedLimit := True\<rparr>,
           Break)) \<and>
     int (length (analysed (fst (main k cfg n e stop qs)))) < m \<and>
     int (length (processed (fst (main k cfg n e stop qs)))) \<le> m \<and>
     analysed (fst (main k cfg n e stop qs)) =
       take (nat m - 1) (processed (fst (main k cfg n e stop qs))) \<and>
     (\<forall>r\<in>set (csv (fst (main k cfg n e stop qs))).
        nameWithOwner r \<in> set (take (nat m - 1) (processed (fst (main k cfg n e stop qs))))) \<and>
     (int (length (processed (fst (main k cfg n e stop qs)))) = m \<longrightarrow>
        reachedLimit (fst (main k cfg n e stop qs)) \<and>
        analysed (fst (main k cfg n e stop qs)) =
          butlast (processed (fst (main k cfg n e stop qs))))"
proof (intro impI)
  assume a: "MAX_ANALYZED cfg = Some m \<and> 0 < m"
  let ?F = "fst (main k cfg n e stop qs)"
  from a have c: "capped m ?F" using capped_main by blast
  have 1: "int (length (analysed ?F)) < m"
    using c a by (auto simp: capped_def)
  have 2: "int (length (processed ?F)) = m \<longrightarrow>
      reachedLimit ?F \<and> analysed ?F = butlast (processed ?F)"
    using c a by (auto simp: capped_def butlast_conv_take)
  have 3: "\<not> stopping stop st \<and> full_name it \<notin> set (processed st) \<and>
      m \<le> int (length (processed st)) + 1 \<longrightarrow>
        item_step cfg n e stop it st =
          ((tick st)\<lparr>processed := processed st @ [full_name it], reachedLimit := True\<rparr>,
           Break)"
    using a item_step_at_cap [of cfg m stop st it n e] by blast
  from c 1 2 3 show "(\<not> stopping stop st \<and> full_name it \<notin> set (processed st) \<and>
      m \<le> int (length (processed st)) + 1 \<longrightarrow>
        item_step cfg n e stop it st =
          ((tick st)\<lparr>processed := processed st @ [full_name it], reachedLimit := True\<rparr>,
           Break)) \<and>
     int (length (analysed ?F)) < m \<and> int (length (processed ?F)) \<le> m \<and>
     analysed ?F = take (nat m - 1) (processed ?F) \<and>
     (\<forall>r\<in>set (csv ?F). nameWithOwner r \<in> set (take (nat m - 1) (processed ?F))) \<and>
     (int (length (processed ?F)) = m \<longrightarrow>
        reachedLimit ?F \<and> analysed ?F = butlast (processed ?F))"
    by (auto simp: capped_def)
qed

theorem analysed_cap_stops_before_analysis_witness:
  "MAX_ANALYZED config_cap2 = Some 2 \<and>
   processed (fst (main 5 config_cap2 2 catalog never [''q''])) = [''acme/ui'', ''acme/forms''] \<and>
   analysed (fst (main 5 config_cap2 2 catalog never [''q''])) = [''acme/ui''] \<and>
   int (length (analysed (fst (main 5 config_cap2 2 catalog never [''q''])))) < 2 \<and>
   reachedLimit (fst (main 5 config_cap2 2 catalog never [''q''])) \<and>
   item_step config_cap2 2 catalog never hit_forms
     (start\<lparr>processed := [''acme/ui''], analysed := [''acme/ui'']\<rparr>) =
     ((tick (start\<lparr>processed := [''acme/ui''], analysed := [''acme/ui'']\<rparr>))
        \<lparr>processed := [''acme/ui''] @ [full_name hit_forms], reachedLimit := True\<rparr>, Break)"
proof -
  have m: "MAX_ANALYZED config_cap2 = Some 2 \<and> (0::int) < 2"
    by (simp add: config_cap2_def default_config_def)
  have h: "\<not> stopping never (start\<lparr>processed := [''acme/ui''], analysed := [''acme/ui'']\<rparr>) \<and>
      full_name hit_forms \<notin>
        set (processed (start\<lparr>processed := [''acme/ui''], analysed := [''acme/ui'']\<rparr>)) \<and>
      (2::int) \<le>
        int (length (processed (start\<lparr>processed := [''acme/ui''], analysed := [''acme/ui'']\<rparr>))) + 1"
    by (simp add: stopping_def never_def start_def hit_forms_def)
  have p: "processed (fst (main 5 config_cap2 2 catalog never [''q''])) =
      [''acme/ui'', ''acme/forms'']"
    and a: "analysed (fst (main 5 config_cap2 2 catalog never [''q''])) = [''acme/ui'']"
    by (simp_all add: sample_run_capped)
  from analysed_cap_stops_before_analysis [where cfg = config_cap2 and m = 2 and stop = never
      and st = "start\<lparr>processed := [''acme/ui''], analysed := [''acme/ui'']\<rparr>"
      and it = hit_forms and n = 2 and e = catalog and k = 5 and qs = "[''q'']"] m h p a
  show ?thesis by simp
qed

end
